theory Spec2Isabelle
  imports Main "HOL-Library.Sublist" "HOL-Library.AList"
begin

section \<open>The scoped execution context (class \<open>Context\<close> of \<open>behave/runner.py\<close>)\<close>

text \<open>
  A \<open>Context\<close> holds a stack of frames (dictionaries from attribute name to value,
  innermost first), the call site of the latest assignment of each name (\<open>_record\<close>),
  the mode that first assigned each name (\<open>_origin\<close>) and the current mode. Python
  exceptions are values of \<open>error\<close>; a method that mutates the context returns the
  exception it raised, if any, together with the context as the call left it.
\<close>

datatype error = AttributeError | KeyError | IndexError | TypeError

datatype mode = BEHAVE | USER

text \<open>
  The values stored under attribute names. \<open>PyConfig\<close> is the configuration object,
  \<open>PyDoNothing\<close> the function \<open>do_nothing\<close> that \<open>run_multiproc\<close> defines (lines
  564-565): it takes two arguments and returns at once.
\<close>

datatype val = PyNone | PyBool bool | PyInt int | PyStr string | PyConfig | PyDoNothing

text \<open>\<open>None\<close>, a bool or an int: not a sequence, without the methods \<open>insert\<close> and \<open>pop\<close>.\<close>

fun scalar :: "val \<Rightarrow> bool" where
  "scalar PyNone = True"
| "scalar (PyBool b) = True"
| "scalar (PyInt i) = True"
| "scalar v = False"

type_synonym frame = "string \<rightharpoonup> val"

text \<open>An entry of \<open>traceback.extract_stack\<close>: file name, line, function, source text.\<close>

type_synonym stack_frame = "string \<times> nat \<times> string \<times> string"

text \<open>
  The three messages of \<open>_emit_warning\<close>, each with the parameters its format string
  uses: the attribute, and for the first one the parameters \<open>function\<close>, \<open>filename\<close>
  and \<open>line\<close>.
\<close>

datatype warning =
    RunnerMasking string string string nat
  | UserMaskingBehave string
  | UserMasking string

text \<open>
  The instance's dictionary. \<open>__init__\<close> stores seven entries; the methods read
  \<open>_stack\<close>, \<open>_record\<close>, \<open>_origin\<close>, \<open>_mode\<close> and \<open>_config\<close> (of which \<open>verbose\<close> is
  \<open>_config.verbose\<close>). \<open>__setattr__\<close> writes this dictionary for every name that starts
  with an underscore (line 203), so an entry can come to hold any value. The record below
  describes the instances whose entries hold what \<open>__init__\<close> stored there or a later
  value of the same kind, with two additions that are followed as well: \<open>_stack\<close> may
  hold a scalar instead of the list of frames (\<open>NoSequence\<close>), and the dictionary may
  hold, under \<open>_emit_warning\<close>, the function \<open>do_nothing\<close>, as after line 566 of
  \<open>run_multiproc\<close> (\<open>emit_warning_replaced\<close>): the call \<open>self._emit_warning(...)\<close>
  then finds this entry before the method of the class. Any other write of the dictionary
  leaves the instances described here, and \<open>setattr\<close> returns no context for it.
  \<open>warned\<close> is the sequence of calls of \<open>warnings.warn\<close> made so far. The root frame is
  the one \<open>__init__\<close> puts on the stack; \<open>_push\<close> and \<open>_pop\<close> work at the front only,
  so the root frame is the last element for as long as it is on the stack.
\<close>

datatype stack_slot = Frames "frame list" | NoSequence val

record Context =
  stack :: stack_slot
  records :: "string \<rightharpoonup> stack_frame"
  origin :: "string \<rightharpoonup> mode"
  mode :: mode
  verbose :: bool
  emit_warning_replaced :: bool
  warned :: "warning list"

definition root_frame :: frame where
  "root_frame = [''failed'' \<mapsto> PyBool False, ''config'' \<mapsto> PyConfig,
                 ''active_outline'' \<mapsto> PyNone]"

definition Context_init :: "bool \<Rightarrow> Context" where
  "Context_init config_verbose =
     \<lparr> stack = Frames [root_frame], records = Map.empty, origin = Map.empty, mode = BEHAVE,
       verbose = config_verbose, emit_warning_replaced = False, warned = [] \<rparr>"

text \<open>
  \<open>_push\<close> and \<open>_pop\<close>: \<open>self._stack.insert(0, {})\<close> and \<open>self._stack.pop(0)\<close>. A
  scalar has neither method (AttributeError); \<open>list.pop(0)\<close> raises IndexError on an
  empty list.
\<close>

definition push :: "Context \<Rightarrow> error option \<times> Context" where
  "push c = (case stack c of
               Frames frames \<Rightarrow> (None, c\<lparr>stack := Frames (Map.empty # frames)\<rparr>)
             | NoSequence v \<Rightarrow> (Some AttributeError, c))"

definition pop :: "Context \<Rightarrow> error option \<times> Context" where
  "pop c = (case stack c of
              Frames [] \<Rightarrow> (Some IndexError, c)
            | Frames (frame # rest) \<Rightarrow> (None, c\<lparr>stack := Frames rest\<rparr>)
            | NoSequence v \<Rightarrow> (Some AttributeError, c))"

text \<open>
  \<open>user_mode\<close> is a generator wrapped by \<open>contextlib.contextmanager\<close>: the mode is set,
  the body of the \<open>with\<close> statement runs at the \<open>yield\<close>, and the statement after the
  \<open>yield\<close> runs only when the body returns. When the body raises (an error, or an
  interrupt that cancels it), the exception is thrown into the generator at the
  \<open>yield\<close>, which has no handler around it, and leaves the generator at once.
\<close>

datatype outcome = Returned | Raised string | Cancelled

definition user_mode :: "(Context \<Rightarrow> outcome \<times> Context) \<Rightarrow> Context \<Rightarrow> outcome \<times> Context" where
  "user_mode block c =
     (case block (c\<lparr>mode := USER\<rparr>) of
        (Returned, c') \<Rightarrow> (Returned, c'\<lparr>mode := BEHAVE\<rparr>)
      | (Raised e, c') \<Rightarrow> (Raised e, c')
      | (Cancelled, c') \<Rightarrow> (Cancelled, c'))"

definition warn :: "warning \<Rightarrow> Context \<Rightarrow> Context" where
  "warn w c = c\<lparr>warned := warned c @ [w]\<rparr>"

text \<open>
  The method \<open>_emit_warning\<close> of the class, called with the recorded call site
  \<open>record\<close>: the parameter \<open>function\<close> of the message is \<open>record[3]\<close>, the source text of
  the recorded line, \<open>filename\<close> is \<open>record[0]\<close> and \<open>line\<close> is \<open>record[1]\<close>.
  \<open>self._origin[attr]\<close> raises KeyError for a name without origin; with either mode the
  lookup is evaluated.
\<close>

definition emit_warning :: "Context \<Rightarrow> string \<Rightarrow> stack_frame \<Rightarrow> error option \<times> Context" where
  "emit_warning c attr site =
     (case origin c attr of
        None \<Rightarrow> (Some KeyError, c)
      | Some orig \<Rightarrow>
          (case site of (record0, record1, record2, record3) \<Rightarrow>
             if mode c = BEHAVE \<and> orig \<noteq> BEHAVE
               then (None, warn (RunnerMasking attr record3 record0 record1) c)
             else if mode c = USER then
               (if orig \<noteq> USER then (None, warn (UserMaskingBehave attr) c)
                else if verbose c then (None, warn (UserMasking attr) c)
                else (None, c))
             else (None, c)))"

text \<open>
  The loop of \<open>__setattr__\<close> over the frames \<open>self._stack[1:]\<close>. For a frame that has the
  name, \<open>self._record[attr]\<close> is read first; then \<open>self._emit_warning\<close> is called, which
  is \<open>do_nothing\<close> when the instance's dictionary holds it and the method of the class
  otherwise.
\<close>

fun mask_check :: "Context \<Rightarrow> string \<Rightarrow> frame list \<Rightarrow> error option \<times> Context" where
  "mask_check c attr [] = (None, c)"
| "mask_check c attr (frame # frames) =
     (if frame attr \<noteq> None then
        (case records c attr of
           None \<Rightarrow> (Some KeyError, c)
         | Some site \<Rightarrow>
             if emit_warning_replaced c then mask_check c attr frames
             else
               (case emit_warning c attr site of
                  (Some e, c') \<Rightarrow> (Some e, c')
                | (None, c') \<Rightarrow> mask_check c' attr frames))
      else mask_check c attr frames)"

text \<open>
  The branch of \<open>__setattr__\<close> for a name that starts with an underscore:
  \<open>self.__dict__[attr] = value\<close>. The result is the instance after the write when it is
  one of those described above, and \<open>None\<close> when the write is not followed.
\<close>

definition instance_write :: "Context \<Rightarrow> string \<Rightarrow> val \<Rightarrow> Context option" where
  "instance_write c attr v =
     (if attr = ''_stack'' \<and> scalar v then Some (c\<lparr>stack := NoSequence v\<rparr>)
      else if attr = ''_emit_warning'' \<and> v = PyDoNothing
        then Some (c\<lparr>emit_warning_replaced := True\<rparr>)
      else None)"

text \<open>
  \<open>__setattr__\<close>; \<open>site\<close> is the caller's entry \<open>traceback.extract_stack(limit=2)[0]\<close>.
  \<open>attr[0]\<close> raises IndexError on the empty name. With a scalar in \<open>_stack\<close> the slice
  \<open>self._stack[1:]\<close> raises TypeError. The slice of an empty list is empty, while
  \<open>self._stack[0]\<close> raises IndexError there, after the call site has been recorded.
\<close>

definition setattr ::
  "Context \<Rightarrow> string \<Rightarrow> val \<Rightarrow> stack_frame \<Rightarrow> error option \<times> Context option" where
  "setattr c attr v site =
     (case attr of
        [] \<Rightarrow> (Some IndexError, Some c)
      | ch # _ \<Rightarrow>
          if ch = CHR ''_'' then (None, instance_write c attr v)
          else
            (case stack c of
               NoSequence junk \<Rightarrow> (Some TypeError, Some c)
             | Frames frames \<Rightarrow>
                 (case mask_check c attr (tl frames) of
                    (Some e, c') \<Rightarrow> (Some e, Some c')
                  | (None, c') \<Rightarrow>
                      (let c'' = c'\<lparr>records := (records c')(attr \<mapsto> site)\<rparr> in
                       case frames of
                         [] \<Rightarrow> (Some IndexError, Some c'')
                       | frame # rest \<Rightarrow>
                           (None, Some (c''\<lparr>stack := Frames (frame(attr \<mapsto> v) # rest),
                                            origin := (if origin c'' attr = None
                                                       then (origin c'')(attr \<mapsto> mode c'')
                                                       else origin c'')\<rparr>))))))"

text \<open>
  \<open>__delattr__\<close>, which has no branch for names with an underscore: \<open>self._stack[0]\<close>
  raises TypeError on a scalar and IndexError on the empty list; \<open>del frame[attr]\<close> comes
  before \<open>del self._record[attr]\<close>, which raises KeyError when the name has no recorded
  call site.
\<close>

definition delattr :: "Context \<Rightarrow> string \<Rightarrow> error option \<times> Context" where
  "delattr c attr =
     (case stack c of
        NoSequence junk \<Rightarrow> (Some TypeError, c)
      | Frames [] \<Rightarrow> (Some IndexError, c)
      | Frames (frame # rest) \<Rightarrow>
          if frame attr \<noteq> None then
            (let c' = c\<lparr>stack := Frames (frame(attr := None) # rest)\<rparr> in
             if records c' attr \<noteq> None
               then (None, c'\<lparr>records := (records c')(attr := None)\<rparr>)
               else (Some KeyError, c'))
          else (Some AttributeError, c))"

text \<open>The loop of \<open>__getattr__\<close>: the value in the first frame that has the name.\<close>

fun lookup_frames :: "frame list \<Rightarrow> string \<Rightarrow> val option" where
  "lookup_frames [] attr = None"
| "lookup_frames (frame # frames) attr =
     (case frame attr of Some v \<Rightarrow> Some v | None \<Rightarrow> lookup_frames frames attr)"

text \<open>
  The names \<open>__init__\<close> stores in the instance's dictionary. A read of one of them
  yields the object in that entry: \<open>Slot\<close> stands for the object of the kind
  \<open>__init__\<close> stored, the scalar in \<open>_stack\<close> is the value itself.
\<close>

definition slot_names :: "string list" where
  "slot_names = [''_runner'', ''_config'', ''_root'', ''_stack'', ''_record'', ''_origin'',
                 ''_mode'']"

datatype attr_value = Value val | Slot string | ClassAttribute string

text \<open>\<open>self.__dict__[attr]\<close> and \<open>attr in self.__dict__\<close>.\<close>

definition instance_dict :: "Context \<Rightarrow> string \<Rightarrow> attr_value option" where
  "instance_dict c attr =
     (if attr = ''_stack'' then
        (case stack c of Frames frames \<Rightarrow> Some (Slot attr) | NoSequence v \<Rightarrow> Some (Value v))
      else if attr \<in> set slot_names then Some (Slot attr)
      else if attr = ''_emit_warning'' \<and> emit_warning_replaced c then Some (Value PyDoNothing)
      else None)"

text \<open>
  The method \<open>__getattr__\<close> as it is written. Iterating over a scalar raises TypeError.
\<close>

definition getattr :: "Context \<Rightarrow> string \<Rightarrow> error + attr_value" where
  "getattr c attr =
     (case attr of
        [] \<Rightarrow> Inl IndexError
      | ch # _ \<Rightarrow>
          if ch = CHR ''_'' then
            (case instance_dict c attr of Some x \<Rightarrow> Inr x | None \<Rightarrow> Inl KeyError)
          else
            (case stack c of
               NoSequence junk \<Rightarrow> Inl TypeError
             | Frames frames \<Rightarrow>
                 (case lookup_frames frames attr of
                    Some v \<Rightarrow> Inr (Value v)
                  | None \<Rightarrow> Inl AttributeError)))"

text \<open>
  The read \<open>context.attr\<close>. Python looks the name up on the instance and on its class
  first and calls \<open>__getattr__\<close> only when that fails. The names without underscore
  that the class defines are \<open>BEHAVE\<close>, \<open>USER\<close>, \<open>user_mode\<close> and \<open>execute_steps\<close>; a
  read of one of them yields the attribute of the class, whatever the frames hold
  (\<open>__setattr__\<close> puts a name without underscore in a frame, never in the instance's
  dictionary). A name with an underscore that is an entry of the instance's dictionary
  yields the entry. For the other names with an underscore the result depends on the
  attributes every Python object has; the read is not followed (\<open>None\<close>).
\<close>

definition is_private :: "string \<Rightarrow> bool" where
  "is_private attr = (case attr of [] \<Rightarrow> False | ch # _ \<Rightarrow> ch = CHR ''_'')"

definition public_class_attributes :: "string list" where
  "public_class_attributes = [''BEHAVE'', ''USER'', ''user_mode'', ''execute_steps'']"

definition attribute :: "Context \<Rightarrow> string \<Rightarrow> (error + attr_value) option" where
  "attribute c attr =
     (if is_private attr then
        (case instance_dict c attr of Some x \<Rightarrow> Some (Inr x) | None \<Rightarrow> None)
      else if attr \<in> set public_class_attributes then Some (Inr (ClassAttribute attr))
      else Some (getattr c attr))"

text \<open>The loop of \<open>__contains__\<close>.\<close>

fun in_frames :: "frame list \<Rightarrow> string \<Rightarrow> bool" where
  "in_frames [] attr = False"
| "in_frames (frame # frames) attr = (if frame attr \<noteq> None then True else in_frames frames attr)"

definition contains :: "Context \<Rightarrow> string \<Rightarrow> error + bool" where
  "contains c attr =
     (case attr of
        [] \<Rightarrow> Inl IndexError
      | ch # _ \<Rightarrow>
          if ch = CHR ''_'' then Inr (instance_dict c attr \<noteq> None)
          else
            (case stack c of
               NoSequence junk \<Rightarrow> Inl TypeError
             | Frames frames \<Rightarrow> Inr (in_frames frames attr)))"

text \<open>
  A name whose reads and writes go through the frames: not empty, not starting with an
  underscore, and not the name of an attribute of the class.
\<close>

definition frame_name :: "string \<Rightarrow> bool" where
  "frame_name attr =
     (attr \<noteq> [] \<and> \<not> is_private attr \<and> attr \<notin> set public_class_attributes)"

subsection \<open>Sequences of calls on a context\<close>

text \<open>
  A caller's sequence of calls. A call that raises leaves the context as the method
  left it, and the caller goes on with the next call. The result is \<open>None\<close> when a
  write of the instance's dictionary has left the instances that are followed.
\<close>

datatype op = Push | Pop | Set string val stack_frame | Get string | Delete string

fun exec_op :: "op \<Rightarrow> Context \<Rightarrow> Context option" where
  "exec_op Push c = Some (snd (push c))"
| "exec_op Pop c = Some (snd (pop c))"
| "exec_op (Set attr v site) c = snd (setattr c attr v site)"
| "exec_op (Get attr) c = Some c"
| "exec_op (Delete attr) c = Some (snd (delattr c attr))"

fun run_ops :: "op list \<Rightarrow> Context \<Rightarrow> Context option" where
  "run_ops [] c = Some c"
| "run_ops (x # xs) c = (case exec_op x c of None \<Rightarrow> None | Some c' \<Rightarrow> run_ops xs c')"

text \<open>
  \<open>paired d ops\<close>: with \<open>d\<close> scopes open, every \<open>Pop\<close> of \<open>ops\<close> closes a scope that is
  open and no scope is open at the end. \<open>outer_ops d ops\<close> keeps the calls of \<open>ops\<close> made
  while no scope opened by \<open>ops\<close> is open, without the pushes and pops. \<open>public_set x\<close>:
  the call is no assignment of a name that starts with an underscore.
\<close>

fun paired :: "nat \<Rightarrow> op list \<Rightarrow> bool" where
  "paired d [] = (d = 0)"
| "paired d (Push # ops) = paired (Suc d) ops"
| "paired d (Pop # ops) = (0 < d \<and> paired (d - 1) ops)"
| "paired d (x # ops) = paired d ops"

fun outer_ops :: "nat \<Rightarrow> op list \<Rightarrow> op list" where
  "outer_ops d [] = []"
| "outer_ops d (Push # ops) = outer_ops (Suc d) ops"
| "outer_ops d (Pop # ops) = outer_ops (d - 1) ops"
| "outer_ops d (x # ops) = (if d = 0 then x # outer_ops d ops else outer_ops d ops)"

fun touches :: "string \<Rightarrow> op \<Rightarrow> bool" where
  "touches attr (Set a v site) = (a = attr)"
| "touches attr (Delete a) = (a = attr)"
| "touches attr x = False"

fun public_set :: "op \<Rightarrow> bool" where
  "public_set (Set attr v site) = (\<not> is_private attr)"
| "public_set x = True"

subsection \<open>The masking matrix of the specification\<close>

text \<open>
  The diagnostic for one masked frame, by the mode of the writer and the mode that first
  set the name: none for \<open>BEHAVE\<close> over \<open>BEHAVE\<close>, a warning for \<open>BEHAVE\<close> over
  \<open>USER\<close> and for \<open>USER\<close> over \<open>BEHAVE\<close>, and for \<open>USER\<close> over \<open>USER\<close> a warning
  only with verbose diagnostics. \<open>warnings_of w n\<close> is that diagnostic, \<open>n\<close> times.
\<close>

definition spec_masking_warning :: "mode \<Rightarrow> mode \<Rightarrow> bool \<Rightarrow> string \<Rightarrow> stack_frame \<Rightarrow> warning option" where
  "spec_masking_warning writer orig verbose_on attr site =
     (case site of (record0, record1, record2, record3) \<Rightarrow>
        (case (writer, orig) of
           (BEHAVE, BEHAVE) \<Rightarrow> None
         | (BEHAVE, USER) \<Rightarrow> Some (RunnerMasking attr record3 record0 record1)
         | (USER, BEHAVE) \<Rightarrow> Some (UserMaskingBehave attr)
         | (USER, USER) \<Rightarrow> if verbose_on then Some (UserMasking attr) else None))"

definition warnings_of :: "warning option \<Rightarrow> nat \<Rightarrow> warning list" where
  "warnings_of w n = (case w of None \<Rightarrow> [] | Some x \<Rightarrow> replicate n x)"

section \<open>The parallel scheduler (\<open>Runner.run_multiproc\<close>, \<open>Runner.worker\<close>)\<close>

subsection \<open>Features, scenarios and steps\<close>

text \<open>
  The scheduler reads features, scenario outlines and scenarios through the same
  attributes: \<open>type\<close> (\<open>etype\<close>), \<open>name\<close>, \<open>filename\<close>, \<open>tags\<close>, \<open>status\<close>,
  \<open>duration\<close> (kept as the text \<open>str\<close> gives), \<open>steps\<close>, and \<open>scenarios\<close> for the
  children of a feature or of an outline. \<open>feature_name\<close> and \<open>feature_filename\<close> are
  \<open>feature.name\<close> and \<open>feature.filename\<close> of a scenario's owning feature.
\<close>

record step =
  step_name :: string
  step_status :: string

record attrs =
  etype :: string
  name :: string
  filename :: string
  tags :: "string list"
  status :: string
  duration :: string
  steps :: "step list"
  feature_name :: string
  feature_filename :: string

datatype element = Element (attrs: attrs) (scenarios: "element list")

subsection \<open>Partitioning into jobs\<close>

record scheduler =
  joblist :: "element list"
  joblist_index_queue :: "nat list"
  scenario_count :: nat
  feature_count :: nat

definition scheduler_init :: scheduler where
  "scheduler_init = \<lparr> joblist = [], joblist_index_queue = [], scenario_count = 0,
                       feature_count = 0 \<rparr>"

text \<open>The three statements that add a job: append, put the index, count.\<close>

definition add_feature_job :: "element \<Rightarrow> scheduler \<Rightarrow> scheduler" where
  "add_feature_job job s =
     s\<lparr> joblist := joblist s @ [job],
        joblist_index_queue := joblist_index_queue s @ [feature_count s + scenario_count s],
        feature_count := feature_count s + 1 \<rparr>"

definition add_scenario_job :: "element \<Rightarrow> scheduler \<Rightarrow> scheduler" where
  "add_scenario_job job s =
     s\<lparr> joblist := joblist s @ [job],
        joblist_index_queue := joblist_index_queue s @ [feature_count s + scenario_count s],
        scenario_count := scenario_count s + 1 \<rparr>"

fun add_subscenarios :: "element list \<Rightarrow> scheduler \<Rightarrow> scheduler" where
  "add_subscenarios [] s = s"
| "add_subscenarios (subscenario # rest) s = add_subscenarios rest (add_scenario_job subscenario s)"

fun add_scenarios :: "element list \<Rightarrow> scheduler \<Rightarrow> scheduler" where
  "add_scenarios [] s = s"
| "add_scenarios (scenario # rest) s =
     add_scenarios rest
       (if etype (attrs scenario) = ''scenario'' then add_scenario_job scenario s
        else add_subscenarios (scenarios scenario) s)"

fun add_features :: "string \<Rightarrow> element list \<Rightarrow> scheduler \<Rightarrow> scheduler" where
  "add_features parallel_element [] s = s"
| "add_features parallel_element (feature # rest) s =
     add_features parallel_element rest
       (if parallel_element = ''feature'' \<or> ''serial'' \<in> set (tags (attrs feature))
        then add_feature_job feature s
        else add_scenarios (scenarios feature) s)"

text \<open>\<open>run_multiproc\<close> returns \<open>-1\<close> before any job is made when the option is neither value.\<close>

definition partition_jobs :: "string \<Rightarrow> element list \<Rightarrow> scheduler option" where
  "partition_jobs parallel_element features =
     (if parallel_element \<noteq> ''feature'' \<and> parallel_element \<noteq> ''scenario'' then None
      else Some (add_features parallel_element features scheduler_init))"

text \<open>The jobs of one feature, in the words of the specification.\<close>

definition spec_jobs_of_scenario :: "element \<Rightarrow> element list" where
  "spec_jobs_of_scenario scenario =
     (if etype (attrs scenario) = ''scenario'' then [scenario] else scenarios scenario)"

definition spec_jobs_of_feature :: "string \<Rightarrow> element \<Rightarrow> element list" where
  "spec_jobs_of_feature parallel_element feature =
     (if parallel_element = ''feature'' \<or> ''serial'' \<in> set (tags (attrs feature)) then [feature]
      else concat (map spec_jobs_of_scenario (scenarios feature)))"

subsection \<open>Strings\<close>

text \<open>Python's \<open>needle in haystack\<close> on strings: \<open>needle\<close> occurs as a contiguous part.\<close>

fun str_in :: "string \<Rightarrow> string \<Rightarrow> bool" where
  "str_in needle [] = (needle = [])"
| "str_in needle (ch # rest) = (prefix needle (ch # rest) \<or> str_in needle rest)"

text \<open>\<open>str\<close> of a non-negative integer: its decimal digits.\<close>

definition digit :: "nat \<Rightarrow> char" where
  "digit d = ''0123456789'' ! d"

function str_nat :: "nat \<Rightarrow> string" where
  "str_nat n = (if n < 10 then [digit n] else str_nat (n div 10) @ [digit (n mod 10)])"
  by pat_completeness auto
termination
  by (relation "measure id") auto

declare str_nat.simps [simp del]

definition newline :: string where
  "newline = [CHR 0x0A]"

subsection \<open>The result of one job\<close>

text \<open>
  The dictionary \<open>results\<close> that a worker puts on the results queue. Its key \<open>status\<close> is
  the field \<open>result_status\<close>. The worker stores \<open>uniquekey\<close> only for a job whose type is
  not \<open>feature\<close> and the three scenario counts only for a feature job, and the aggregation
  reads each of them only under the same condition; the field of a key that is not stored
  keeps the value it is initialised with here.
\<close>

record jobresult =
  steps_passed :: nat
  steps_failed :: nat
  steps_skipped :: nat
  steps_undefined :: nat
  jobtype :: string
  reportinginfo :: string
  result_status :: string
  uniquekey :: string
  scenarios_passed :: nat
  scenarios_failed :: nat
  scenarios_skipped :: nat

fun count_steps :: "step list \<Rightarrow> jobresult \<Rightarrow> jobresult" where
  "count_steps [] results = results"
| "count_steps (st # rest) results =
     count_steps rest
       (if step_status st = ''passed'' then results\<lparr>steps_passed := steps_passed results + 1\<rparr>
        else if step_status st = ''failed'' then results\<lparr>steps_failed := steps_failed results + 1\<rparr>
        else if step_status st = ''skipped'' then results\<lparr>steps_skipped := steps_skipped results + 1\<rparr>
        else results\<lparr>steps_undefined := steps_undefined results + 1\<rparr>)"

fun countstepstatus :: "element \<Rightarrow> jobresult \<Rightarrow> jobresult" where
  "countstepstatus (Element a subs) results =
     (if etype a \<noteq> ''scenario'' then fold countstepstatus subs results
      else count_steps (steps a) results)"

fun countscenariostatus :: "element \<Rightarrow> jobresult \<Rightarrow> jobresult" where
  "countscenariostatus (Element a subs) results =
     (if etype a \<noteq> ''scenario'' then fold countscenariostatus subs results
      else
        (let r1 = (if status a = ''passed''
                   then results\<lparr>scenarios_passed := scenarios_passed results + 1\<rparr> else results);
             r2 = (if status a = ''failed''
                   then r1\<lparr>scenarios_failed := scenarios_failed r1 + 1\<rparr> else r1)
         in if status a = ''skipped''
            then r2\<lparr>scenarios_skipped := scenarios_skipped r2 + 1\<rparr> else r2))"

text \<open>
  The output buffer \<open>writebuf\<close> is the text written to it: the formatter and
  \<open>getskippedsteps\<close> only append, so its position \<open>pos\<close> is the length of the text.
\<close>

fun skipped_lines :: "string \<Rightarrow> step list \<Rightarrow> string \<Rightarrow> string" where
  "skipped_lines job_name [] writebuf = writebuf"
| "skipped_lines job_name (st # rest) writebuf =
     skipped_lines job_name rest
       (if step_status st = ''skipped''
        then writebuf @ ''Skipped because of error - Scenario:'' @ job_name @ ''|'' @
               ''step:'' @ step_name st @ newline
        else writebuf)"

fun getskippedsteps :: "element \<Rightarrow> string \<Rightarrow> string" where
  "getskippedsteps (Element a subs) writebuf =
     (if etype a \<noteq> ''scenario'' then fold getskippedsteps subs writebuf
      else skipped_lines (name a) (steps a) writebuf)"

text \<open>
  \<open>generatereport\<close>; \<open>config_format\<close> is \<open>self.config.format\<close>, whose first element is
  read (IndexError on an empty list) once the header and the footer are built.
\<close>

definition generatereport ::
  "string list \<Rightarrow> nat \<Rightarrow> element \<Rightarrow> string \<Rightarrow> string \<Rightarrow> string \<Rightarrow> error + string" where
  "generatereport config_format proc_number current_job start_time end_time writebuf =
     (if length writebuf = 0 then Inr []
      else
        (let a = attrs current_job;
             reportheader = start_time @ ''|WORKER'' @ str_nat proc_number @ '' START|'' @
               (if etype a = ''feature'' then ''Feature:'' @ name a @ ''|'' @ filename a
                else ''Scenario:'' @ name a @ ''|Feature:'' @ feature_name a @ ''|'' @ filename a);
             reportfooter = end_time @ ''|WORKER'' @ str_nat proc_number @ '' END|'' @
               (if etype a = ''feature''
                then ''Feature:'' @ name a @ ''|status:'' @ status a @ ''|'' @ filename a @
                       ''|Duration:'' @ duration a
                else ''Scenario:'' @ name a @ ''|Feature:'' @ feature_name a @ ''|'' @
                       ''status:'' @ status a @ ''|'' @ filename a @ ''|Duration:'' @ duration a)
         in case config_format of
              [] \<Rightarrow> Inl IndexError
            | fmt # _ \<Rightarrow>
                (let reportheader' =
                       (if fmt = ''plain'' \<and> length (tags a) \<noteq> 0
                        then reportheader @ newline @ ''@'' @ concat (map (\<lambda>tag. tag @ '' '') (tags a))
                        else reportheader);
                     writebuf' = (if status a = ''failed'' then getskippedsteps current_job writebuf
                                  else writebuf)
                 in Inr (reportheader' @ writebuf' @ newline @ reportfooter))))"

text \<open>The body of \<open>if job_report_text:\<close> in \<open>worker\<close>, up to the \<open>put\<close>.\<close>

definition job_result :: "element \<Rightarrow> string \<Rightarrow> jobresult" where
  "job_result current_job job_report_text =
     (let a = attrs current_job;
          results = \<lparr> steps_passed = 0, steps_failed = 0, steps_skipped = 0, steps_undefined = 0,
                      jobtype = etype a, reportinginfo = job_report_text,
                      result_status = status a, uniquekey = [],
                      scenarios_passed = 0, scenarios_failed = 0, scenarios_skipped = 0 \<rparr>;
          results' = (if etype a \<noteq> ''feature''
                      then results\<lparr>uniquekey := filename a @ feature_name a\<rparr>
                      else countscenariostatus current_job results)
      in countstepstatus current_job results')"

subsection \<open>The worker loop\<close>

text \<open>
  The index queue as a worker meets it: each element stands for one call of
  \<open>get_nowait\<close> that finds the queue non-empty, and either hands over the next index
  (\<open>Deliver\<close>) or raises an exception other than \<open>Empty\<close> (\<open>Fault\<close>); on the empty
  queue \<open>get_nowait\<close> raises \<open>Empty\<close>, a subclass of \<open>Exception\<close>. The exception of a
  \<open>Fault\<close> is named by its class and is either of the class \<open>Exception\<close> or a subclass
  (an error of the transport to the queue's manager process, say), or of a class outside
  \<open>Exception\<close> (\<open>KeyboardInterrupt\<close>, \<open>SystemExit\<close>). Running a job (\<open>current_job.run(self)\<close>, code outside this file) is the
  parameter \<open>run\<close>: it yields the job with its statuses and duration assigned, the text
  written to the job's buffer and the two time stamps, or the exception that escaped.
\<close>

datatype raised = ExceptionClass string | OtherBaseException string

datatype delivery = Deliver nat | Fault raised

record execution =
  executed :: element
  buffer_text :: string
  start_time :: string
  end_time :: string

datatype run_result = Ran execution | RunRaised string

text \<open>
  How the worker's function ends: by the \<open>break\<close> of the loop (the process exits
  normally), or by an exception nothing catches.
\<close>

datatype worker_exit = LoopBroken | DequeueRaised string | Uncaught error | JobRaised string

text \<open>
  The result is the way the worker ended, the results queue and what is left of the
  index queue. The first two equations are the handler \<open>except Exception, e: break\<close>;
  it does not catch an exception of a class outside \<open>Exception\<close>, which ends the worker.
\<close>

fun worker ::
  "string list \<Rightarrow> (element \<Rightarrow> run_result) \<Rightarrow> element list \<Rightarrow> nat \<Rightarrow> delivery list \<Rightarrow>
   jobresult list \<Rightarrow> worker_exit \<times> jobresult list \<times> delivery list" where
  "worker config_format run jobs proc_number [] resultsqueue = (LoopBroken, resultsqueue, [])"
| "worker config_format run jobs proc_number (Fault (ExceptionClass e) # queue) resultsqueue =
     (LoopBroken, resultsqueue, queue)"
| "worker config_format run jobs proc_number (Fault (OtherBaseException e) # queue) resultsqueue =
     (DequeueRaised e, resultsqueue, queue)"
| "worker config_format run jobs proc_number (Deliver joblist_index # queue) resultsqueue =
     (if joblist_index < length jobs then
        (case run (jobs ! joblist_index) of
           RunRaised e \<Rightarrow> (JobRaised e, resultsqueue, queue)
         | Ran ex \<Rightarrow>
             (case generatereport config_format proc_number (executed ex) (start_time ex)
                     (end_time ex) (buffer_text ex) of
                Inl e \<Rightarrow> (Uncaught e, resultsqueue, queue)
              | Inr job_report_text \<Rightarrow>
                  worker config_format run jobs proc_number queue
                    (if job_report_text \<noteq> []
                     then resultsqueue @ [job_result (executed ex) job_report_text]
                     else resultsqueue)))
      else (Uncaught IndexError, resultsqueue, queue))"

subsection \<open>Aggregation of the results\<close>

record tally =
  features_passed :: nat
  features_failed :: nat
  features_skipped :: nat
  total_scenarios_passed :: nat
  total_scenarios_failed :: nat
  total_scenarios_skipped :: nat
  total_steps_passed :: nat
  total_steps_failed :: nat
  total_steps_skipped :: nat
  total_steps_undefined :: nat

definition tally_init :: tally where
  "tally_init = \<lparr> features_passed = 0, features_failed = 0, features_skipped = 0,
                   total_scenarios_passed = 0, total_scenarios_failed = 0,
                   total_scenarios_skipped = 0, total_steps_passed = 0, total_steps_failed = 0,
                   total_steps_skipped = 0, total_steps_undefined = 0 \<rparr>"

text \<open>
  The dictionary \<open>combined_features_from_scenarios_results\<close> is an association list with
  one pair for each key. The body of the loop that empties the results queue:
\<close>

definition absorb ::
  "jobresult \<Rightarrow> (string \<times> string) list \<times> tally \<Rightarrow> (string \<times> string) list \<times> tally" where
  "absorb jobresult state =
     (case state of (combined, t) \<Rightarrow>
        (let st = result_status jobresult;
             (combined1, t1) =
               (if jobtype jobresult \<noteq> ''feature'' then
                  (case map_of combined (uniquekey jobresult) of
                     Some s \<Rightarrow> AList.update (uniquekey jobresult) (s @ ''|'' @ st) combined
                   | None \<Rightarrow> AList.update (uniquekey jobresult) st combined,
                   if st = ''passed''
                     then t\<lparr>total_scenarios_passed := total_scenarios_passed t + 1\<rparr>
                   else if st = ''failed''
                     then t\<lparr>total_scenarios_failed := total_scenarios_failed t + 1\<rparr>
                   else if st = ''skipped''
                     then t\<lparr>total_scenarios_skipped := total_scenarios_skipped t + 1\<rparr>
                   else t)
                else
                  (combined,
                   if st = ''passed'' then t\<lparr>features_passed := features_passed t + 1\<rparr>
                   else if st = ''failed'' then t\<lparr>features_failed := features_failed t + 1\<rparr>
                   else if st = ''skipped'' then t\<lparr>features_skipped := features_skipped t + 1\<rparr>
                   else t));
             t2 = t1\<lparr> total_steps_passed := total_steps_passed t1 + steps_passed jobresult,
                      total_steps_failed := total_steps_failed t1 + steps_failed jobresult,
                      total_steps_skipped := total_steps_skipped t1 + steps_skipped jobresult,
                      total_steps_undefined :=
                        total_steps_undefined t1 + steps_undefined jobresult \<rparr>;
             t3 = (if jobtype jobresult = ''feature'' then
                     t2\<lparr> total_scenarios_passed :=
                           total_scenarios_passed t2 + scenarios_passed jobresult,
                         total_scenarios_failed :=
                           total_scenarios_failed t2 + scenarios_failed jobresult,
                         total_scenarios_skipped :=
                           total_scenarios_skipped t2 + scenarios_skipped jobresult \<rparr>
                   else t2)
         in (combined1, t3)))"

fun drain ::
  "jobresult list \<Rightarrow> (string \<times> string) list \<times> tally \<Rightarrow> (string \<times> string) list \<times> tally" where
  "drain [] state = state"
| "drain (jobresult # resultsqueue) state = drain resultsqueue (absorb jobresult state)"

text \<open>The body of the loop over the keys of the dictionary, for the key's string.\<close>

definition resolve :: "string \<Rightarrow> tally \<Rightarrow> tally" where
  "resolve combined_status t =
     (if str_in ''failed'' combined_status then t\<lparr>features_failed := features_failed t + 1\<rparr>
      else if str_in ''passed'' combined_status then t\<lparr>features_passed := features_passed t + 1\<rparr>
      else t\<lparr>features_skipped := features_skipped t + 1\<rparr>)"

fun resolve_all :: "(string \<times> string) list \<Rightarrow> tally \<Rightarrow> tally" where
  "resolve_all [] t = t"
| "resolve_all ((key, combined_status) # rest) t = resolve_all rest (resolve combined_status t)"

text \<open>The totals that \<open>run_multiproc\<close> prints; it returns \<open>features_failed\<close> of them.\<close>

definition aggregate :: "jobresult list \<Rightarrow> tally" where
  "aggregate resultsqueue =
     (case drain resultsqueue ([], tally_init) of (combined, t) \<Rightarrow> resolve_all combined t)"

text \<open>
  The statuses, in the order of the queue, of the results of scenario jobs with a given
  key, and their concatenation with the separator.
\<close>

definition scenario_statuses :: "string \<Rightarrow> jobresult list \<Rightarrow> string list" where
  "scenario_statuses key resultsqueue =
     map result_status
       (filter (\<lambda>r. jobtype r \<noteq> ''feature'' \<and> uniquekey r = key) resultsqueue)"

fun join_bar :: "string list \<Rightarrow> string" where
  "join_bar [] = []"
| "join_bar [s] = s"
| "join_bar (s # rest) = s @ ''|'' @ join_bar rest"

text \<open>
  The keys of the results of scenario jobs, each once, and the number of results of feature
  jobs with a given status.
\<close>

definition scenario_keys :: "jobresult list \<Rightarrow> string list" where
  "scenario_keys resultsqueue =
     remdups (map uniquekey (filter (\<lambda>r. jobtype r \<noteq> ''feature'') resultsqueue))"

definition feature_results :: "string \<Rightarrow> jobresult list \<Rightarrow> nat" where
  "feature_results st resultsqueue =
     length (filter (\<lambda>r. jobtype r = ''feature'' \<and> result_status r = st) resultsqueue)"

text \<open>
  The statuses of the data model, and what the aggregation needs of a status: it has
  \<open>failed\<close> or \<open>passed\<close> as a part only when it is that word.
\<close>

definition job_statuses :: "string set" where
  "job_statuses = {''passed'', ''failed'', ''skipped'', ''undefined''}"

definition plain_status :: "string \<Rightarrow> bool" where
  "plain_status s = ((str_in ''failed'' s \<longrightarrow> s = ''failed'') \<and>
                     (str_in ''passed'' s \<longrightarrow> s = ''passed''))"

subsection \<open>Auxiliary notions for the statements\<close>

text \<open>
  The relation between the counters, the job list and the index queue that holds
  throughout the partitioning.
\<close>

definition sched_ok :: "scheduler \<Rightarrow> bool" where
  "sched_ok s = (feature_count s + scenario_count s = length (joblist s) \<and>
                 joblist_index_queue s = [0..<length (joblist s)])"

text \<open>The string accumulated for a key: the statuses so far, each after a separator.\<close>

fun accumulate :: "string option \<Rightarrow> string list \<Rightarrow> string option" where
  "accumulate acc [] = acc"
| "accumulate acc (st # rest) =
     accumulate (Some (case acc of None \<Rightarrow> st | Some s \<Rightarrow> s @ ''|'' @ st)) rest"

text \<open>A job and a result with the given attributes, for evaluating the definitions.\<close>

definition example_element ::
  "string \<Rightarrow> string \<Rightarrow> string list \<Rightarrow> string \<Rightarrow> step list \<Rightarrow> element list \<Rightarrow> element" where
  "example_element ty nm tgs st sts subs =
     Element \<lparr> etype = ty, name = nm, filename = ''features/f.feature'', tags = tgs,
               status = st, duration = ''0.0'', steps = sts, feature_name = ''F'',
               feature_filename = ''features/f.feature'' \<rparr> subs"

definition example_result :: "string \<Rightarrow> string \<Rightarrow> jobresult" where
  "example_result key st =
     \<lparr> steps_passed = 0, steps_failed = 0, steps_skipped = 0, steps_undefined = 0,
       jobtype = ''scenario'', reportinginfo = ''report'', result_status = st, uniquekey = key,
       scenarios_passed = 0, scenarios_failed = 0, scenarios_skipped = 0 \<rparr>"

section \<open>Properties of the execution context\<close>

lemmas ctx_defs = Context_init_def root_frame_def push_def pop_def setattr_def delattr_def
  getattr_def contains_def emit_warning_def warn_def slot_names_def instance_dict_def
  instance_write_def attribute_def is_private_def public_class_attributes_def

subsection \<open>Lookup\<close>

lemma lookup_frames_Some:
  "(lookup_frames fs attr = Some v) =
   (\<exists>i<length fs. (fs ! i) attr = Some v \<and> (\<forall>j<i. (fs ! j) attr = None))"
proof (induction fs)
  case Nil
  show ?case by simp
next
  case (Cons f fs)
  show ?case
  proof (cases "f attr")
    case None
    have "(\<exists>i<length (f # fs). ((f # fs) ! i) attr = Some v \<and> (\<forall>j<i. ((f # fs) ! j) attr = None))
        = (\<exists>i<length fs. (fs ! i) attr = Some v \<and> (\<forall>j<i. (fs ! j) attr = None))"
      (is "?L = ?R")
    proof
      assume ?L
      then obtain i where i: "i < length (f # fs)" "((f # fs) ! i) attr = Some v"
        "\<forall>j<i. ((f # fs) ! j) attr = None" by blast
      from i None obtain k where k: "i = Suc k" by (cases i) auto
      have "\<forall>j<k. (fs ! j) attr = None"
      proof (intro allI impI)
        fix j assume "j < k"
        then have "Suc j < i" using k by simp
        then have "((f # fs) ! Suc j) attr = None" using i(3) by blast
        then show "(fs ! j) attr = None" by simp
      qed
      with i k show ?R by auto
    next
      assume ?R
      then obtain i where i: "i < length fs" "(fs ! i) attr = Some v"
        "\<forall>j<i. (fs ! j) attr = None" by blast
      have "\<forall>j<Suc i. ((f # fs) ! j) attr = None"
      proof (intro allI impI)
        fix j assume "j < Suc i"
        then show "((f # fs) ! j) attr = None" using None i(3) by (cases j) auto
      qed
      with i show ?L by (intro exI[of _ "Suc i"]) simp
    qed
    with None Cons show ?thesis by simp
  next
    case (Some w)
    have "(\<exists>i<length (f # fs). ((f # fs) ! i) attr = Some v \<and> (\<forall>j<i. ((f # fs) ! j) attr = None))
        = (w = v)" (is "?L = _")
    proof
      assume ?L
      then obtain i where i: "i < length (f # fs)" "((f # fs) ! i) attr = Some v"
        "\<forall>j<i. ((f # fs) ! j) attr = None" by blast
      have "i = 0"
      proof (rule ccontr)
        assume "i \<noteq> 0"
        then have "((f # fs) ! 0) attr = None" using i(3) by blast
        with Some show False by simp
      qed
      with i Some show "w = v" by simp
    next
      assume "w = v"
      with Some show ?L by (intro exI[of _ 0]) simp
    qed
    with Some show ?thesis by simp
  qed
qed

lemma lookup_frames_None: "(lookup_frames fs attr = None) = (\<forall>f\<in>set fs. f attr = None)"
  by (induction fs) (auto split: option.splits)

lemma in_frames_lookup: "in_frames fs attr = (lookup_frames fs attr \<noteq> None)"
  by (induction fs) (auto split: option.splits)

lemma frame_name_Cons:
  assumes "frame_name attr"
  obtains ch cs where "attr = ch # cs" "ch \<noteq> CHR ''_''" "attr \<notin> set public_class_attributes"
  using assms by (cases attr) (auto simp: frame_name_def is_private_def)

lemma attribute_frame_name:
  assumes "stack c = Frames frames" "frame_name attr"
  shows "attribute c attr = Some (case lookup_frames frames attr of
                                    Some v \<Rightarrow> Inr (Value v) | None \<Rightarrow> Inl AttributeError)"
proof -
  from assms(2) obtain ch cs where a: "attr = ch # cs" "ch \<noteq> CHR ''_''"
    "attr \<notin> set public_class_attributes" by (rule frame_name_Cons)
  have p: "\<not> is_private attr" using a(1,2) by (simp add: is_private_def)
  have "attribute c attr = Some (getattr c attr)"
    using p a(3) by (simp add: attribute_def)
  moreover have "getattr c attr = (case lookup_frames frames attr of
                                    Some v \<Rightarrow> Inr (Value v) | None \<Rightarrow> Inl AttributeError)"
    unfolding getattr_def a(1) using a(2) assms(1) by simp
  ultimately show ?thesis by simp
qed

text \<open>
  Claim C9, as amended. The stack of the context holds frames, and the name is not empty,
  does not start with an underscore and is not the name of an attribute of the class
  (\<open>BEHAVE\<close>, \<open>USER\<close>, \<open>user_mode\<close>, \<open>execute_steps\<close>). Then the read of the name
  returns the value of the first frame, from the innermost outwards, that has the name,
  and raises AttributeError exactly when no frame has it; it has no other result; and
  \<open>contains\<close> is true exactly when the read returns a value.
\<close>

theorem get_contains_contract:
  assumes "stack c = Frames frames" "frame_name attr"
  shows "(attribute c attr = Some (Inr (Value v))) =
           (\<exists>i<length frames. (frames ! i) attr = Some v \<and> (\<forall>j<i. (frames ! j) attr = None)) \<and>
         (attribute c attr = Some (Inl AttributeError)) = (\<forall>f\<in>set frames. f attr = None) \<and>
         (attribute c attr = Some (Inl AttributeError) \<or>
            (\<exists>w. attribute c attr = Some (Inr (Value w)))) \<and>
         (contains c attr = Inr True) = (\<exists>r. attribute c attr = Some (Inr r))"
proof -
  note g = attribute_frame_name[OF assms]
  from assms(2) obtain ch cs where a: "attr = ch # cs" "ch \<noteq> CHR ''_''"
    "attr \<notin> set public_class_attributes" by (rule frame_name_Cons)
  have 1: "(attribute c attr = Some (Inr (Value v))) = (lookup_frames frames attr = Some v)"
    unfolding g by (simp split: option.splits)
  have 2: "(attribute c attr = Some (Inl AttributeError)) = (lookup_frames frames attr = None)"
    unfolding g by (simp split: option.splits)
  have 3: "attribute c attr = Some (Inl AttributeError) \<or>
             (\<exists>w. attribute c attr = Some (Inr (Value w)))"
    unfolding g by (simp split: option.splits)
  have k: "contains c attr = Inr (lookup_frames frames attr \<noteq> None)"
    unfolding contains_def a(1) using a(2) assms(1) by (simp add: in_frames_lookup)
  have 4: "(contains c attr = Inr True) = (\<exists>r. attribute c attr = Some (Inr r))"
    unfolding k g by (cases "lookup_frames frames attr") auto
  show ?thesis
    using 1 2 3 4 by (simp add: lookup_frames_Some lookup_frames_None)
qed

theorem get_contains_contract_witness:
  "stack (Context_init False) = Frames [root_frame] \<and> frame_name ''failed'' \<and>
   attribute (Context_init False) ''failed'' = Some (Inr (Value (PyBool False))) \<and>
   contains (Context_init False) ''failed'' = Inr True"
proof -
  have s: "stack (Context_init False) = Frames [root_frame]" by (simp add: Context_init_def)
  have n: "frame_name ''failed''"
    by (simp add: frame_name_def is_private_def public_class_attributes_def)
  show ?thesis
    using s n get_contains_contract [OF s n, of "PyBool False"]
    by (simp add: ctx_defs)
qed

text \<open>
  Claim C9 as stated, for every name, fails at the names the class defines and at the
  entries of the instance's dictionary: no frame has \<open>user_mode\<close> or \<open>_mode\<close>, yet the
  read returns the method of the class, and the entry, instead of raising AttributeError;
  and the read of \<open>user_mode\<close> returns a value while \<open>contains\<close> is false.
\<close>

theorem get_class_attribute_counterexample:
  "stack (Context_init False) = Frames [root_frame] \<and>
   lookup_frames [root_frame] ''user_mode'' = None \<and>
   attribute (Context_init False) ''user_mode'' = Some (Inr (ClassAttribute ''user_mode'')) \<and>
   contains (Context_init False) ''user_mode'' = Inr False \<and>
   lookup_frames [root_frame] ''_mode'' = None \<and>
   attribute (Context_init False) ''_mode'' = Some (Inr (Slot ''_mode''))"
  by (simp add: ctx_defs)

subsection \<open>Mode switch\<close>

text \<open>
  Claim C7 says that the mode is back to \<open>BEHAVE\<close> after \<open>user_mode\<close> on every path.
  The code restores it only when the block returns: after a block that raises, or that is
  cancelled, the mode is still \<open>USER\<close>.
\<close>

theorem user_mode_not_restored:
  "mode (snd (user_mode (\<lambda>c. (Raised ''error in hook'', c)) (Context_init False))) = USER \<and>
   mode (snd (user_mode (\<lambda>c. (Cancelled, c)) (Context_init False))) = USER \<and>
   mode (snd (user_mode (\<lambda>c. (Returned, c)) (Context_init False))) = BEHAVE"
  by (simp add: user_mode_def Context_init_def)

subsection \<open>Assignment\<close>

text \<open>
  Claim C6 says that \<open>setattr\<close> always completes. The code raises KeyError, and writes
  nothing, when the name is in an outer frame and has no recorded call site: after the
  name was deleted in the current scope (\<open>delattr\<close> drops the record although an outer
  frame still has the name), and for the names \<open>__init__\<close> puts in the root frame, which
  never get a record.
\<close>

theorem set_raises_KeyError:
  "map_option
     (\<lambda>c. setattr c ''x'' (PyInt 3) (''steps.py'', 6, ''step_impl'', ''context.x = 3'')
            = (Some KeyError, Some c))
     (run_ops [Set ''x'' (PyInt 1) (''steps.py'', 3, ''step_impl'', ''context.x = 1''), Push,
               Set ''x'' (PyInt 2) (''steps.py'', 4, ''step_impl'', ''context.x = 2''),
               Delete ''x''] (Context_init False)) = Some True \<and>
   setattr (snd (push (Context_init False))) ''config'' PyNone
     (''steps.py'', 3, ''step_impl'', ''context.config = None'')
     = (Some KeyError, Some (snd (push (Context_init False))))"
  by (simp add: ctx_defs)

subsection \<open>What an assignment and a deletion do to the stack and to the warnings\<close>

lemma warnings_of_0: "warnings_of w 0 = []"
  by (cases w) (simp_all add: warnings_of_def)

lemma warnings_of_Suc: "warnings_of w (Suc 0) @ warnings_of w n = warnings_of w (Suc n)"
  by (cases w) (simp_all add: warnings_of_def)

lemma emit_warning_spec:
  assumes "origin c attr = Some orig"
  shows "emit_warning c attr site =
           (None, c\<lparr>warned := warned c @
                     warnings_of (spec_masking_warning (mode c) orig (verbose c) attr site) 1\<rparr>)"
proof -
  obtain r0 r1 r2 r3 where s: "site = (r0, r1, r2, r3)"
    by (cases site) auto
  show ?thesis
    using assms
    by (cases "mode c"; cases orig)
       (simp_all add: emit_warning_def s spec_masking_warning_def warnings_of_def warn_def)
qed

lemma mask_check_replaced:
  assumes "emit_warning_replaced c" "records c attr = Some site0"
  shows "mask_check c attr fs = (None, c)"
  using assms by (induction fs) simp_all

lemma mask_check_spec:
  assumes "\<not> emit_warning_replaced c" "records c attr = Some site0" "origin c attr = Some orig"
  shows "mask_check c attr fs =
           (None, c\<lparr>warned := warned c @
                     warnings_of (spec_masking_warning (mode c) orig (verbose c) attr site0)
                       (length (filter (\<lambda>f. f attr \<noteq> None) fs))\<rparr>)"
  using assms
proof (induction fs arbitrary: c)
  case Nil
  then show ?case by (simp add: warnings_of_0)
next
  case (Cons f fs)
  show ?case
  proof (cases "f attr")
    case None
    with Cons.IH[of c] Cons.prems show ?thesis by simp
  next
    case (Some y)
    let ?w = "spec_masking_warning (mode c) orig (verbose c) attr site0"
    let ?c1 = "c\<lparr>warned := warned c @ warnings_of ?w 1\<rparr>"
    have e: "emit_warning c attr site0 = (None, ?c1)"
      using Cons.prems(3) by (rule emit_warning_spec)
    have ih: "mask_check ?c1 attr fs =
           (None, ?c1\<lparr>warned := warned ?c1 @
                     warnings_of (spec_masking_warning (mode ?c1) orig (verbose ?c1) attr site0)
                       (length (filter (\<lambda>f. f attr \<noteq> None) fs))\<rparr>)"
      by (rule Cons.IH) (use Cons.prems in simp_all)
    have "mask_check c attr (f # fs) = mask_check ?c1 attr fs"
      using Some Cons.prems(1,2) e by simp
    also have "\<dots> = (None, c\<lparr>warned := warned c @ (warnings_of ?w (Suc 0) @
                     warnings_of ?w (length (filter (\<lambda>f. f attr \<noteq> None) fs)))\<rparr>)"
      using ih by simp
    finally show ?thesis
      using Some by (simp add: warnings_of_Suc)
  qed
qed

lemma emit_warning_stack: "stack (snd (emit_warning c attr site)) = stack c"
  by (cases site) (simp add: emit_warning_def warn_def split: option.splits)

lemma mask_check_stack: "stack (snd (mask_check c attr fs)) = stack c"
proof (induction fs arbitrary: c)
  case Nil
  show ?case by simp
next
  case (Cons f fs)
  show ?case
  proof (cases "f attr \<noteq> None")
    case False
    with Cons.IH[of c] show ?thesis by simp
  next
    case True
    show ?thesis
    proof (cases "records c attr")
      case None
      with True show ?thesis by simp
    next
      case (Some site)
      show ?thesis
      proof (cases "emit_warning_replaced c")
        case rep: True
        have "mask_check c attr (f # fs) = mask_check c attr fs"
          using \<open>f attr \<noteq> None\<close> Some rep by simp
        with Cons.IH[of c] show ?thesis by simp
      next
        case norep: False
        obtain r c1 where e: "emit_warning c attr site = (r, c1)"
          by (cases "emit_warning c attr site")
        have c1: "stack c1 = stack c" using emit_warning_stack[of c attr site] e by simp
        show ?thesis
        proof (cases r)
          case None
          have "mask_check c attr (f # fs) = mask_check c1 attr fs"
            using \<open>f attr \<noteq> None\<close> Some norep e None by simp
          with Cons.IH[of c1] c1 show ?thesis by simp
        next
          case (Some err)
          have "mask_check c attr (f # fs) = (Some err, c1)"
            using \<open>f attr \<noteq> None\<close> \<open>records c attr = Some site\<close> norep e Some by simp
          with c1 show ?thesis by simp
        qed
      qed
    qed
  qed
qed

lemma setattr_public:
  assumes "\<not> is_private attr" "stack c = Frames frames"
  shows "\<exists>c'. snd (setattr c attr v site) = Some c' \<and>
           stack c' =
             (if attr \<noteq> [] \<and> fst (mask_check c attr (tl frames)) = None
              then (case frames of [] \<Rightarrow> Frames [] | f # rest \<Rightarrow> Frames (f(attr \<mapsto> v) # rest))
              else Frames frames)"
proof (cases attr)
  case Nil
  then show ?thesis using assms(2) by (simp add: setattr_def)
next
  case (Cons ch cs)
  have ch: "ch \<noteq> CHR ''_''" using assms(1) Cons by (simp add: is_private_def)
  obtain r c1 where m: "mask_check c attr (tl frames) = (r, c1)"
    by (cases "mask_check c attr (tl frames)")
  have s: "stack c1 = Frames frames"
    using mask_check_stack[of c attr "tl frames"] m assms(2) by simp
  have u: "setattr c attr v site =
               (case mask_check c attr (tl frames) of
                  (Some e, c') \<Rightarrow> (Some e, Some c')
                | (None, c') \<Rightarrow>
                    (let c'' = c'\<lparr>records := (records c')(attr \<mapsto> site)\<rparr> in
                     case frames of
                       [] \<Rightarrow> (Some IndexError, Some c'')
                     | frame # rest \<Rightarrow>
                         (None, Some (c''\<lparr>stack := Frames (frame(attr \<mapsto> v) # rest),
                                          origin := (if origin c'' attr = None
                                                     then (origin c'')(attr \<mapsto> mode c'')
                                                     else origin c'')\<rparr>))))"
    unfolding setattr_def Cons using ch assms(2) by simp
  have h: "attr \<noteq> []" using Cons by simp
  show ?thesis
  proof (cases r)
    case None
    show ?thesis
    proof (cases frames)
      case Nil
      then show ?thesis unfolding u m using None s h by (simp add: Let_def)
    next
      case (Cons f rest)
      then show ?thesis unfolding u m using None s h by (simp add: Let_def)
    qed
  next
    case (Some e)
    then show ?thesis unfolding u m using s h by simp
  qed
qed

lemma delattr_stack:
  assumes "stack c = Frames frames"
  shows "stack (snd (delattr c attr)) =
           Frames (case frames of [] \<Rightarrow> [] | f # rest \<Rightarrow> f(attr := None) # rest)"
proof (cases frames)
  case Nil
  then show ?thesis using assms by (simp add: delattr_def)
next
  case (Cons f rest)
  show ?thesis
  proof (cases "f attr")
    case None
    then have "f(attr := None) = f" by auto
    with Cons None assms show ?thesis by (simp add: delattr_def)
  next
    case (Some y)
    with Cons assms show ?thesis by (simp add: delattr_def Let_def)
  qed
qed

text \<open>
  Claim C5, as amended. A name that does not start with an underscore and has a recorded
  call site and an origin is set in a context whose stack holds frames. When the
  method \<open>_emit_warning\<close> has not been replaced, the diagnostic of the matrix is emitted
  once for each frame other than the innermost that holds the name (none for \<open>BEHAVE\<close>
  over \<open>BEHAVE\<close>; one for \<open>BEHAVE\<close> over \<open>USER\<close> and for \<open>USER\<close> over \<open>BEHAVE\<close>; for
  \<open>USER\<close> over \<open>USER\<close> one with verbose diagnostics and none without), so exactly one
  when exactly one other frame holds the name; when it has been replaced by
  \<open>do_nothing\<close>, as \<open>run_multiproc\<close> does, nothing is emitted. The origin stays the mode
  of the first assignment, and the assignment completes on a non-empty stack.
\<close>

theorem masking_matrix:
  assumes "attr \<noteq> []" "\<not> is_private attr" "stack c = Frames frames"
    and "records c attr = Some site0" "origin c attr = Some orig"
  shows "\<exists>c'. snd (setattr c attr v site) = Some c' \<and>
           warned c' =
             warned c @
               (if emit_warning_replaced c then []
                else warnings_of (spec_masking_warning (mode c) orig (verbose c) attr site0)
                       (length (filter (\<lambda>f. f attr \<noteq> None) (tl frames)))) \<and>
           origin c' attr = Some orig \<and>
           (frames \<noteq> [] \<longrightarrow> fst (setattr c attr v site) = None)"
proof -
  obtain ch cs where a: "attr = ch # cs" "ch \<noteq> CHR ''_''"
    using assms(1,2) by (cases attr) (auto simp: is_private_def)
  show ?thesis
  proof (cases "emit_warning_replaced c")
    case True
    show ?thesis
      using a assms(3,4,5) True mask_check_replaced[OF True assms(4), of "tl frames"]
      by (cases frames) (simp_all add: setattr_def Let_def)
  next
    case False
    show ?thesis
      using a assms(3,4,5) False mask_check_spec[OF False assms(4,5), of "tl frames"]
      by (cases frames) (simp_all add: setattr_def Let_def warnings_of_0)
  qed
qed

theorem masking_matrix_witness:
  "''x'' \<noteq> [] \<and> \<not> is_private ''x'' \<and>
   map_option warned (snd (setattr
     \<lparr> stack = Frames [Map.empty, [''x'' \<mapsto> PyInt 1]],
       records = [''x'' \<mapsto> (''steps.py'', 3, ''step_impl'', ''context.x = 1'')],
       origin = [''x'' \<mapsto> USER], mode = BEHAVE, verbose = False,
       emit_warning_replaced = False, warned = [] \<rparr>
     ''x'' (PyInt 2) (''model.py'', 9, ''run'', ''runner.context.x = 2''))) =
   Some [RunnerMasking ''x'' ''context.x = 1'' ''steps.py'' 3]"
proof -
  have n: "''x'' \<noteq> []" by simp
  have p: "\<not> is_private ''x''" by (simp add: is_private_def)
  show ?thesis
    using n p masking_matrix [OF n p, of
       "\<lparr> stack = Frames [Map.empty, [''x'' \<mapsto> PyInt 1]],
         records = [''x'' \<mapsto> (''steps.py'', 3, ''step_impl'', ''context.x = 1'')],
         origin = [''x'' \<mapsto> USER], mode = BEHAVE, verbose = False,
         emit_warning_replaced = False, warned = [] \<rparr>"
       "[Map.empty, [''x'' \<mapsto> PyInt 1]]"
       "(''steps.py'', 3, ''step_impl'', ''context.x = 1'')" USER "PyInt 2"
       "(''model.py'', 9, ''run'', ''runner.context.x = 2'')"]
    by (auto simp: spec_masking_warning_def warnings_of_def)
qed

text \<open>
  Claim C5 as stated says exactly one warning. With the name in two outer frames the
  loop of \<open>__setattr__\<close> warns once for each: user code sets the name in two enclosing
  scopes (no warning, without verbose diagnostics), and the runner, writing the name in
  a third scope, emits two warnings.
\<close>

theorem masking_twice_counterexample:
  "map_option warned
     (run_ops [Set ''x'' (PyInt 1) (''steps.py'', 3, ''step_impl'', ''context.x = 1''), Push,
               Set ''x'' (PyInt 2) (''steps.py'', 4, ''step_impl'', ''context.x = 2''), Push]
        ((Context_init False)\<lparr>mode := USER\<rparr>)) = Some [] \<and>
   Option.bind
     (run_ops [Set ''x'' (PyInt 1) (''steps.py'', 3, ''step_impl'', ''context.x = 1''), Push,
               Set ''x'' (PyInt 2) (''steps.py'', 4, ''step_impl'', ''context.x = 2''), Push]
        ((Context_init False)\<lparr>mode := USER\<rparr>))
     (\<lambda>c. map_option warned
            (snd (setattr (c\<lparr>mode := BEHAVE\<rparr>) ''x'' (PyInt 3)
                    (''model.py'', 9, ''run'', ''runner.context.x = 3'')))) =
   Some [RunnerMasking ''x'' ''context.x = 2'' ''steps.py'' 4,
         RunnerMasking ''x'' ''context.x = 2'' ''steps.py'' 4]"
  by (simp add: ctx_defs)

text \<open>
  Claim C10. With \<open>frame\<close> the innermost frame and \<open>rest\<close> the outer ones:
  \<open>delattr\<close> raises AttributeError and changes nothing when \<open>frame\<close> lacks the name,
  whatever the outer frames hold; otherwise it removes the name from \<open>frame\<close> and
  leaves the outer frames as they are. \<open>setattr\<close> of a name that the frames can hold (one
  that does not start with an underscore) leaves the outer frames as they are, and after
  the innermost frame is popped the stack is the outer frames, with every binding they
  had.
\<close>

theorem delete_scope_local:
  assumes "stack c = Frames (frame # rest)"
  shows "(frame attr = None \<longrightarrow> delattr c attr = (Some AttributeError, c)) \<and>
         (frame attr \<noteq> None \<longrightarrow>
            stack (snd (delattr c attr)) = Frames (frame(attr := None) # rest)) \<and>
         (\<not> is_private attr \<longrightarrow>
            (\<exists>c' frame'. snd (setattr c attr v site) = Some c' \<and>
               stack c' = Frames (frame' # rest) \<and>
               fst (pop c') = None \<and> stack (snd (pop c')) = Frames rest))"
proof -
  have 1: "frame attr = None \<longrightarrow> delattr c attr = (Some AttributeError, c)"
    using assms by (simp add: delattr_def)
  have 2: "frame attr \<noteq> None \<longrightarrow>
            stack (snd (delattr c attr)) = Frames (frame(attr := None) # rest)"
    using delattr_stack[OF assms, of attr] by simp
  have 3: "\<exists>c' frame'. snd (setattr c attr v site) = Some c' \<and>
               stack c' = Frames (frame' # rest) \<and>
               fst (pop c') = None \<and> stack (snd (pop c')) = Frames rest"
    if np: "\<not> is_private attr"
  proof -
    obtain c' where c': "snd (setattr c attr v site) = Some c'"
      "stack c' =
         (if attr \<noteq> [] \<and> fst (mask_check c attr (tl (frame # rest))) = None
          then (case frame # rest of [] \<Rightarrow> Frames [] | f # r \<Rightarrow> Frames (f(attr \<mapsto> v) # r))
          else Frames (frame # rest))"
      using setattr_public[OF np assms, of v site] by blast
    then obtain frame' where f: "stack c' = Frames (frame' # rest)"
      by (cases "attr \<noteq> [] \<and> fst (mask_check c attr (tl (frame # rest))) = None") auto
    then have "fst (pop c') = None \<and> stack (snd (pop c')) = Frames rest"
      by (simp add: pop_def)
    with c'(1) f show ?thesis by blast
  qed
  from 1 2 3 show ?thesis by blast
qed

theorem delete_scope_local_witness:
  "stack \<lparr> stack = Frames [Map.empty, [''x'' \<mapsto> PyInt 1]],
           records = [''x'' \<mapsto> (''steps.py'', 3, ''step_impl'', ''context.x = 1'')],
           origin = [''x'' \<mapsto> USER], mode = USER, verbose = False,
           emit_warning_replaced = False, warned = [] \<rparr>
     = Frames [Map.empty, [''x'' \<mapsto> PyInt 1]] \<and>
   \<not> is_private ''x'' \<and>
   fst (delattr \<lparr> stack = Frames [Map.empty, [''x'' \<mapsto> PyInt 1]],
           records = [''x'' \<mapsto> (''steps.py'', 3, ''step_impl'', ''context.x = 1'')],
           origin = [''x'' \<mapsto> USER], mode = USER, verbose = False,
           emit_warning_replaced = False, warned = [] \<rparr> ''x'') = Some AttributeError \<and>
   map_option (\<lambda>c. stack (snd (pop c)))
     (snd (setattr \<lparr> stack = Frames [Map.empty, [''x'' \<mapsto> PyInt 1]],
           records = [''x'' \<mapsto> (''steps.py'', 3, ''step_impl'', ''context.x = 1'')],
           origin = [''x'' \<mapsto> USER], mode = USER, verbose = False,
           emit_warning_replaced = False, warned = [] \<rparr> ''x'' (PyInt 2)
           (''steps.py'', 7, ''step_impl'', ''context.x = 2''))) =
     Some (Frames [[''x'' \<mapsto> PyInt 1]])"
proof -
  let ?c = "\<lparr> stack = Frames [Map.empty, [''x'' \<mapsto> PyInt 1]],
           records = [''x'' \<mapsto> (''steps.py'', 3, ''step_impl'', ''context.x = 1'')],
           origin = [''x'' \<mapsto> USER], mode = USER, verbose = False,
           emit_warning_replaced = False, warned = [] \<rparr>"
  have s: "stack ?c = Frames [Map.empty, [''x'' \<mapsto> PyInt 1]]" by simp
  have p: "\<not> is_private ''x''" by (simp add: is_private_def)
  note d = delete_scope_local [OF s, of "''x''" "PyInt 2"
      "(''steps.py'', 7, ''step_impl'', ''context.x = 2'')"]
  have 1: "fst (delattr ?c ''x'') = Some AttributeError"
    using d by simp
  obtain c' where c': "snd (setattr ?c ''x'' (PyInt 2)
        (''steps.py'', 7, ''step_impl'', ''context.x = 2'')) = Some c'"
      "stack (snd (pop c')) = Frames [[''x'' \<mapsto> PyInt 1]]"
    using d p by blast
  show ?thesis using s p 1 c' by simp
qed

subsection \<open>Paired scopes\<close>

lemma exec_push:
  assumes "stack c = Frames fs"
  shows "\<exists>c'. exec_op Push c = Some c' \<and> stack c' = Frames (Map.empty # fs)"
  using assms by (simp add: push_def)

lemma exec_pop:
  assumes "stack c = Frames fs"
  shows "\<exists>c'. exec_op Pop c = Some c' \<and> stack c' = Frames (tl fs)"
  using assms by (cases fs) (simp_all add: pop_def)

text \<open>
  A call other than a push or a pop, and no assignment of a name with an underscore,
  changes the innermost frame at most, and there only the name it sets or deletes.
\<close>

lemma exec_inner:
  assumes "x \<noteq> Push" "x \<noteq> Pop" "public_set x" "stack c = Frames fs"
  shows "\<exists>c' fs'. exec_op x c = Some c' \<and> stack c' = Frames fs' \<and>
           length fs' = length fs \<and> tl fs' = tl fs \<and>
           (\<not> touches attr x \<and> fs \<noteq> [] \<longrightarrow> (fs' ! 0) attr = (fs ! 0) attr)"
proof (cases x)
  case Push
  with assms(1) show ?thesis by simp
next
  case Pop
  with assms(2) show ?thesis by simp
next
  case (Set a v site)
  have np: "\<not> is_private a" using assms(3) Set by simp
  obtain c' where c': "snd (setattr c a v site) = Some c'"
    "stack c' =
       (if a \<noteq> [] \<and> fst (mask_check c a (tl fs)) = None
        then (case fs of [] \<Rightarrow> Frames [] | f # rest \<Rightarrow> Frames (f(a \<mapsto> v) # rest))
        else Frames fs)"
    using setattr_public[OF np assms(4), of v site] by blast
  have e: "exec_op x c = Some c'" using Set c'(1) by simp
  show ?thesis
  proof (cases "a \<noteq> [] \<and> fst (mask_check c a (tl fs)) = None")
    case False
    have "stack c' = Frames fs" using c'(2) False by (auto split: if_splits)
    with e show ?thesis by auto
  next
    case True
    show ?thesis
    proof (cases fs)
      case Nil
      then have "stack c' = Frames []" using c'(2) True by simp
      with e Nil show ?thesis by auto
    next
      case (Cons f rest)
      then have s: "stack c' = Frames (f(a \<mapsto> v) # rest)" using c'(2) True by simp
      have "\<not> touches attr x \<longrightarrow> ((f(a \<mapsto> v) # rest) ! 0) attr = ((f # rest) ! 0) attr"
        using Set by simp
      with e s Cons show ?thesis by auto
    qed
  qed
next
  case (Get a)
  with assms(4) show ?thesis by simp
next
  case (Delete a)
  have s: "stack (snd (delattr c a)) =
             Frames (case fs of [] \<Rightarrow> [] | f # rest \<Rightarrow> f(a := None) # rest)"
    using delattr_stack[OF assms(4), of a] .
  have e: "exec_op x c = Some (snd (delattr c a))" using Delete by simp
  show ?thesis
  proof (cases fs)
    case Nil
    with s e show ?thesis by auto
  next
    case (Cons f rest)
    have "\<not> touches attr x \<longrightarrow> ((f(a := None) # rest) ! 0) attr = ((f # rest) ! 0) attr"
      using Delete by simp
    with s e Cons show ?thesis by auto
  qed
qed

lemma drop_Suc_tl: "drop (Suc d) xs = drop d (tl xs)"
  by (cases xs) simp_all

lemma nth_Suc_tl: "Suc n < length xs \<Longrightarrow> xs ! Suc n = tl xs ! n"
  by (cases xs) simp_all

lemma last_tl: "2 \<le> length xs \<Longrightarrow> last (tl xs) = last xs"
  by (cases xs) auto

lemma other_paired:
  assumes "x \<noteq> Push" "x \<noteq> Pop"
  shows "paired d (x # ops) = paired d ops"
    and "outer_ops d (x # ops) = (if d = 0 then x # outer_ops d ops else outer_ops d ops)"
  using assms by (cases x; simp)+

lemma paired_stack:
  "paired d ops \<Longrightarrow> \<forall>x\<in>set ops. public_set x \<Longrightarrow> stack c = Frames fs \<Longrightarrow> d < length fs \<Longrightarrow>
   \<exists>c' fs'. run_ops ops c = Some c' \<and> stack c' = Frames fs' \<and>
     length fs' = length fs - d \<and> tl fs' = drop (Suc d) fs \<and>
     ((\<forall>x\<in>set (outer_ops d ops). \<not> touches attr x) \<longrightarrow> (fs' ! 0) attr = (fs ! d) attr)"
proof (induction ops arbitrary: d c fs)
  case Nil
  then show ?case by (simp add: drop_Suc_tl)
next
  case (Cons x ops)
  have pub: "\<forall>y\<in>set ops. public_set y" using Cons.prems(2) by simp
  show ?case
  proof (cases "x = Push")
    case True
    obtain c1 where c1: "exec_op x c = Some c1" "stack c1 = Frames (Map.empty # fs)"
      using exec_push[OF Cons.prems(3)] True by blast
    have p: "paired (Suc d) ops" using Cons.prems(1) True by simp
    have l: "Suc d < length (Map.empty # fs)" using Cons.prems(4) by simp
    from Cons.IH[OF p pub c1(2) l] obtain c' fs' where
      r: "run_ops ops c1 = Some c'" "stack c' = Frames fs'"
        "length fs' = length (Map.empty # fs) - Suc d"
        "tl fs' = drop (Suc (Suc d)) (Map.empty # fs)"
        "(\<forall>y\<in>set (outer_ops (Suc d) ops). \<not> touches attr y) \<longrightarrow>
           (fs' ! 0) attr = ((Map.empty # fs) ! Suc d) attr" by blast
    have "run_ops (x # ops) c = Some c'" using c1(1) r(1) by simp
    with r True show ?thesis by auto
  next
    case False
    note notPush = this
    show ?thesis
    proof (cases "x = Pop")
      case True
      obtain c1 where c1: "exec_op x c = Some c1" "stack c1 = Frames (tl fs)"
        using exec_pop[OF Cons.prems(3)] True by blast
      have d: "0 < d" and p: "paired (d - 1) ops" using Cons.prems(1) True by simp_all
      obtain k where k: "d = Suc k" using d by (cases d) simp_all
      have l: "d - 1 < length (tl fs)" using Cons.prems(4) d by simp
      from Cons.IH[OF p pub c1(2) l] obtain c' fs' where
        r: "run_ops ops c1 = Some c'" "stack c' = Frames fs'"
          "length fs' = length (tl fs) - (d - 1)"
          "tl fs' = drop (Suc (d - 1)) (tl fs)"
          "(\<forall>y\<in>set (outer_ops (d - 1) ops). \<not> touches attr y) \<longrightarrow>
             (fs' ! 0) attr = (tl fs ! (d - 1)) attr" by blast
      have n: "fs ! d = tl fs ! (d - 1)" using Cons.prems(4) k by (simp add: nth_Suc_tl)
      have dr: "drop (Suc (d - 1)) (tl fs) = drop (Suc d) fs" using k by (simp add: drop_Suc_tl)
      have le: "length (tl fs) - (d - 1) = length fs - d" using k by simp
      have "run_ops (x # ops) c = Some c'" using c1(1) r(1) by simp
      with r n dr le True show ?thesis by auto
    next
      case False
      have pu: "public_set x" using Cons.prems(2) by simp
      have ne: "fs \<noteq> []" using Cons.prems(4) by auto
      have p: "paired d ops" using Cons.prems(1) other_paired(1)[OF notPush False] by simp
      have o: "outer_ops d (x # ops) = (if d = 0 then x # outer_ops d ops else outer_ops d ops)"
        using other_paired(2)[OF notPush False] .
      obtain c1 fs1 where c1: "exec_op x c = Some c1" "stack c1 = Frames fs1"
        "length fs1 = length fs" "tl fs1 = tl fs"
        "\<not> touches attr x \<and> fs \<noteq> [] \<longrightarrow> (fs1 ! 0) attr = (fs ! 0) attr"
        using exec_inner[OF notPush False pu Cons.prems(3), of attr] by blast
      have l: "d < length fs1" using Cons.prems(4) c1(3) by simp
      from Cons.IH[OF p pub c1(2) l] obtain c' fs' where
        r: "run_ops ops c1 = Some c'" "stack c' = Frames fs'"
          "length fs' = length fs1 - d" "tl fs' = drop (Suc d) fs1"
          "(\<forall>y\<in>set (outer_ops d ops). \<not> touches attr y) \<longrightarrow>
             (fs' ! 0) attr = (fs1 ! d) attr" by blast
      have n: "(fs' ! 0) attr = (fs ! d) attr"
        if h: "\<forall>y\<in>set (outer_ops d (x # ops)). \<not> touches attr y"
      proof -
        have u: "\<forall>y\<in>set (outer_ops d ops). \<not> touches attr y"
          using h o by (simp split: if_splits)
        have t: "d = 0 \<longrightarrow> \<not> touches attr x" using h o by simp
        have "(fs1 ! d) attr = (fs ! d) attr"
        proof (cases d)
          case 0
          with t c1(5) ne show ?thesis by simp
        next
          case (Suc k)
          have "fs1 ! d = tl fs1 ! k" using l Suc by (simp add: nth_Suc_tl)
          also have "\<dots> = fs ! d" using c1(4) Cons.prems(4) Suc by (simp add: nth_Suc_tl)
          finally show ?thesis by simp
        qed
        with r(5) u show ?thesis by simp
      qed
      have dr: "drop (Suc d) fs1 = drop (Suc d) fs" using c1(4) by (simp add: drop_Suc_tl)
      have "run_ops (x # ops) c = Some c'" using c1(1) r(1) by simp
      with r(2,3,4) n dr c1(3) show ?thesis by auto
    qed
  qed
qed

lemma outer_ops_flat: "\<forall>x\<in>set (outer_ops d ops). x \<noteq> Push \<and> x \<noteq> Pop"
  by (induction d ops rule: outer_ops.induct) auto

lemma outer_ops_subset: "set (outer_ops d ops) \<subseteq> set ops"
  by (induction d ops rule: outer_ops.induct) auto

lemma flat_paired: "\<forall>x\<in>set ops. x \<noteq> Push \<and> x \<noteq> Pop \<Longrightarrow> paired 0 ops"
proof (induction ops)
  case Nil
  show ?case by simp
next
  case (Cons x ops)
  then show ?case by (cases x) simp_all
qed

lemma flat_outer: "\<forall>x\<in>set ops. x \<noteq> Push \<and> x \<noteq> Pop \<Longrightarrow> outer_ops 0 ops = ops"
proof (induction ops)
  case Nil
  show ?case by simp
next
  case (Cons x ops)
  then show ?case by (cases x) simp_all
qed

text \<open>On a stack of one frame, what a call does to the frame depends on the frame only.\<close>

lemma exec_op_single:
  assumes "stack c = Frames [r]" "stack c2 = Frames [r]" "x \<noteq> Push" "x \<noteq> Pop" "public_set x"
  shows "\<exists>c' c2' r'. exec_op x c = Some c' \<and> exec_op x c2 = Some c2' \<and>
           stack c' = Frames [r'] \<and> stack c2' = Frames [r']"
proof (cases x)
  case Push
  with assms(3) show ?thesis by simp
next
  case Pop
  with assms(4) show ?thesis by simp
next
  case (Set a v site)
  have np: "\<not> is_private a" using assms(5) Set by simp
  obtain c' where c': "snd (setattr c a v site) = Some c'"
    "stack c' = (if a \<noteq> [] then Frames [r(a \<mapsto> v)] else Frames [r])"
    using setattr_public[OF np assms(1), of v site] by auto
  obtain c2' where c2': "snd (setattr c2 a v site) = Some c2'"
    "stack c2' = (if a \<noteq> [] then Frames [r(a \<mapsto> v)] else Frames [r])"
    using setattr_public[OF np assms(2), of v site] by auto
  show ?thesis using Set c' c2' by (cases "a \<noteq> []") auto
next
  case (Get a)
  with assms(1,2) show ?thesis by simp
next
  case (Delete a)
  show ?thesis
    using Delete delattr_stack[OF assms(1), of a] delattr_stack[OF assms(2), of a] by simp
qed

lemma root_simulation:
  "paired d ops \<Longrightarrow> \<forall>x\<in>set ops. public_set x \<Longrightarrow> stack c = Frames fs \<Longrightarrow>
   length fs = Suc d \<Longrightarrow> stack c2 = Frames [last fs] \<Longrightarrow>
   \<exists>c' fs' c2'. run_ops ops c = Some c' \<and> stack c' = Frames fs' \<and>
     run_ops (outer_ops d ops) c2 = Some c2' \<and> stack c2' = Frames [last fs']"
proof (induction ops arbitrary: d c fs c2)
  case Nil
  then show ?case by simp
next
  case (Cons x ops)
  have pub: "\<forall>y\<in>set ops. public_set y" using Cons.prems(2) by simp
  have ne: "fs \<noteq> []" using Cons.prems(4) by auto
  show ?case
  proof (cases "x = Push")
    case True
    obtain c1 where c1: "exec_op x c = Some c1" "stack c1 = Frames (Map.empty # fs)"
      using exec_push[OF Cons.prems(3)] True by blast
    have p: "paired (Suc d) ops" using Cons.prems(1) True by simp
    have l: "length (Map.empty # fs) = Suc (Suc d)" using Cons.prems(4) by simp
    have r: "stack c2 = Frames [last (Map.empty # fs)]" using Cons.prems(5) ne by simp
    from Cons.IH[OF p pub c1(2) l r] obtain c' fs' c2' where
      "run_ops ops c1 = Some c'" "stack c' = Frames fs'"
      "run_ops (outer_ops (Suc d) ops) c2 = Some c2'" "stack c2' = Frames [last fs']" by blast
    then show ?thesis using c1(1) True by auto
  next
    case False
    note notPush = this
    show ?thesis
    proof (cases "x = Pop")
      case True
      obtain c1 where c1: "exec_op x c = Some c1" "stack c1 = Frames (tl fs)"
        using exec_pop[OF Cons.prems(3)] True by blast
      have d: "0 < d" and p: "paired (d - 1) ops" using Cons.prems(1) True by simp_all
      have l: "length (tl fs) = Suc (d - 1)" using Cons.prems(4) d by simp
      have "2 \<le> length fs" using Cons.prems(4) d by simp
      then have "last (tl fs) = last fs" by (rule last_tl)
      then have r: "stack c2 = Frames [last (tl fs)]" using Cons.prems(5) by simp
      from Cons.IH[OF p pub c1(2) l r] obtain c' fs' c2' where
        "run_ops ops c1 = Some c'" "stack c' = Frames fs'"
        "run_ops (outer_ops (d - 1) ops) c2 = Some c2'" "stack c2' = Frames [last fs']" by blast
      then show ?thesis using c1(1) True by auto
    next
      case False
      have pu: "public_set x" using Cons.prems(2) by simp
      have p: "paired d ops" using Cons.prems(1) other_paired(1)[OF notPush False] by simp
      have o: "outer_ops d (x # ops) = (if d = 0 then x # outer_ops d ops else outer_ops d ops)"
        using other_paired(2)[OF notPush False] .
      show ?thesis
      proof (cases "d = 0")
        case True
        obtain r where fs: "fs = [r]" using Cons.prems(4) True by (cases fs) simp_all
        have s: "stack c = Frames [r]" using Cons.prems(3) fs by simp
        have s2: "stack c2 = Frames [r]" using Cons.prems(5) fs by simp
        obtain c1 c21 r' where c1: "exec_op x c = Some c1" "exec_op x c2 = Some c21"
          "stack c1 = Frames [r']" "stack c21 = Frames [r']"
          using exec_op_single[OF s s2 notPush False pu] by blast
        have l: "length [r'] = Suc d" using True by simp
        have r2: "stack c21 = Frames [last [r']]" using c1(4) by simp
        from Cons.IH[OF p pub c1(3) l r2] obtain c' fs' c2' where
          "run_ops ops c1 = Some c'" "stack c' = Frames fs'"
          "run_ops (outer_ops d ops) c21 = Some c2'" "stack c2' = Frames [last fs']" by blast
        then show ?thesis using c1(1,2) o True by auto
      next
        case False
        obtain c1 fs1 where c1: "exec_op x c = Some c1" "stack c1 = Frames fs1"
          "length fs1 = length fs" "tl fs1 = tl fs"
          using exec_inner[OF notPush \<open>x \<noteq> Pop\<close> pu Cons.prems(3), of "[]"] by blast
        have l: "length fs1 = Suc d" using Cons.prems(4) c1(3) by simp
        have "2 \<le> length fs" using Cons.prems(4) False by simp
        then have a: "last (tl fs) = last fs" by (rule last_tl)
        have "2 \<le> length fs1" using l False by simp
        then have "last (tl fs1) = last fs1" by (rule last_tl)
        with a c1(4) have "last fs1 = last fs" by simp
        then have r: "stack c2 = Frames [last fs1]" using Cons.prems(5) by simp
        from Cons.IH[OF p pub c1(2) l r] obtain c' fs' c2' where
          "run_ops ops c1 = Some c'" "stack c' = Frames fs'"
          "run_ops (outer_ops d ops) c2 = Some c2'" "stack c2' = Frames [last fs']" by blast
        then show ?thesis using c1(1) o False by auto
      qed
    qed
  qed
qed

lemma lookup_frames_cong:
  assumes "fs \<noteq> []" "gs \<noteq> []" "(fs ! 0) attr = (gs ! 0) attr" "tl fs = tl gs"
  shows "lookup_frames fs attr = lookup_frames gs attr"
  using assms by (cases fs; cases gs) simp_all

lemma setattr_ok:
  assumes "attr \<noteq> []" "\<not> is_private attr" "stack c = Frames fs"
    and "fst (setattr c attr v site) = None"
  shows "\<exists>c' f rest. snd (setattr c attr v site) = Some c' \<and> fs = f # rest \<and>
           stack c' = Frames (f(attr \<mapsto> v) # rest)"
proof -
  obtain ch cs where a: "attr = ch # cs" "ch \<noteq> CHR ''_''"
    using assms(1,2) by (cases attr) (auto simp: is_private_def)
  obtain r c1 where m: "mask_check c attr (tl fs) = (r, c1)"
    by (cases "mask_check c attr (tl fs)")
  have r: "r = None"
  proof (cases r)
    case None
    then show ?thesis .
  next
    case (Some e)
    then have "fst (setattr c attr v site) = Some e"
      unfolding setattr_def a using a(2) assms(3) m[unfolded a] by simp
    with assms(4) show ?thesis by simp
  qed
  have ne: "fs \<noteq> []"
  proof
    assume "fs = []"
    then have "fst (setattr c attr v site) = Some IndexError"
      unfolding setattr_def a using a(2) assms(3) m[unfolded a] r by (simp add: Let_def)
    with assms(4) show False by simp
  qed
  then obtain f rest where f: "fs = f # rest" by (cases fs) auto
  obtain c' where c': "snd (setattr c attr v site) = Some c'"
    "stack c' =
       (if attr \<noteq> [] \<and> fst (mask_check c attr (tl fs)) = None
        then (case fs of [] \<Rightarrow> Frames [] | f # rest \<Rightarrow> Frames (f(attr \<mapsto> v) # rest))
        else Frames fs)"
    using setattr_public[OF assms(2,3), of v site] by blast
  have "stack c' = Frames (f(attr \<mapsto> v) # rest)"
    using c'(2) assms(1) m r f by simp
  with c'(1) f show ?thesis by blast
qed

text \<open>
  Claim C8, as amended. A sequence of calls whose pushes and pops are paired and which
  assigns no name that starts with an underscore is run on a context whose stack holds
  at least one frame. Afterwards the stack has its former length and its outer frames are
  unchanged, so the root frame is still the last one; the last frame is the one that the
  calls made outside the pushed scopes produce on their own, so nothing done inside a
  pushed scope shows in it; a name that goes through the frames and is neither set nor
  deleted outside the pushed scopes reads as before; and such a name that was just set
  reads as the value set.
\<close>

theorem scope_stack_invariant:
  assumes "paired 0 ops" "\<forall>x\<in>set ops. public_set x" "stack c = Frames frames" "frames \<noteq> []"
  shows "\<exists>c' frames'. run_ops ops c = Some c' \<and> stack c' = Frames frames' \<and>
           length frames' = length frames \<and> tl frames' = tl frames \<and>
           (\<exists>c2 frames2. run_ops (outer_ops 0 ops) c = Some c2 \<and> stack c2 = Frames frames2 \<and>
              last frames' = last frames2) \<and>
           (frame_name attr \<and> (\<forall>x\<in>set (outer_ops 0 ops). \<not> touches attr x) \<longrightarrow>
              attribute c' attr = attribute c attr) \<and>
           (frame_name attr \<and> (\<forall>x\<in>set (outer_ops 0 ops). \<not> touches attr x) \<and>
            fst (setattr c attr v site) = None \<longrightarrow>
              (\<exists>c1 c3. snd (setattr c attr v site) = Some c1 \<and> run_ops ops c1 = Some c3 \<and>
                 attribute c3 attr = Some (Inr (Value v))))"
proof -
  have l: "0 < length frames" using assms(4) by simp
  have flat: "\<forall>x\<in>set (outer_ops 0 ops). x \<noteq> Push \<and> x \<noteq> Pop" by (rule outer_ops_flat)
  have po: "paired 0 (outer_ops 0 ops)" using flat by (rule flat_paired)
  have pubo: "\<forall>x\<in>set (outer_ops 0 ops). public_set x"
    using assms(2) outer_ops_subset[of 0 ops] by auto
  obtain c' frames' where r: "run_ops ops c = Some c'" "stack c' = Frames frames'"
    "length frames' = length frames" "tl frames' = tl frames"
    "(\<forall>x\<in>set (outer_ops 0 ops). \<not> touches attr x) \<longrightarrow>
       (frames' ! 0) attr = (frames ! 0) attr"
    using paired_stack[OF assms(1,2,3) l, of attr] by (auto simp: drop_Suc_tl)
  obtain c2 frames2 where r2: "run_ops (outer_ops 0 ops) c = Some c2"
    "stack c2 = Frames frames2" "length frames2 = length frames" "tl frames2 = tl frames"
    using paired_stack[OF po pubo assms(3) l, of attr] by (auto simp: drop_Suc_tl)
  have root: "last frames' = last frames2"
  proof (cases "length frames = 1")
    case True
    then obtain f where f: "frames = [f]" by (cases frames) simp_all
    have s1: "length frames = Suc 0" using True by simp
    have s2: "stack c = Frames [last frames]" using assms(3) f by simp
    obtain c'' fs'' c2'' where "run_ops ops c = Some c''" "stack c'' = Frames fs''"
      "run_ops (outer_ops 0 ops) c = Some c2''" "stack c2'' = Frames [last fs'']"
      using root_simulation[OF assms(1,2,3) s1 s2] by blast
    with r(1,2) r2(1,2) show ?thesis by simp
  next
    case False
    with l have two: "2 \<le> length frames" by linarith
    have "last frames' = last (tl frames')" using last_tl[of frames'] two r(3) by simp
    also have "\<dots> = last (tl frames2)" using r(4) r2(4) by simp
    also have "\<dots> = last frames2" using last_tl[of frames2] two r2(3) by simp
    finally show ?thesis .
  qed
  have ne': "frames' \<noteq> []" using r(3) assms(4) by auto
  have g1: "attribute c' attr = attribute c attr"
    if n: "frame_name attr" and u: "\<forall>x\<in>set (outer_ops 0 ops). \<not> touches attr x"
  proof -
    have "lookup_frames frames' attr = lookup_frames frames attr"
      using ne' assms(4) r(5) u r(4) by (intro lookup_frames_cong) simp_all
    then show ?thesis
      by (simp add: attribute_frame_name[OF r(2) n] attribute_frame_name[OF assms(3) n])
  qed
  have g2: "\<exists>c1 c3. snd (setattr c attr v site) = Some c1 \<and> run_ops ops c1 = Some c3 \<and>
                 attribute c3 attr = Some (Inr (Value v))"
    if n: "frame_name attr" and u: "\<forall>x\<in>set (outer_ops 0 ops). \<not> touches attr x"
      and ok: "fst (setattr c attr v site) = None"
  proof -
    have a: "attr \<noteq> []" "\<not> is_private attr" using n by (simp_all add: frame_name_def)
    obtain c1 f rest where c1: "snd (setattr c attr v site) = Some c1" "frames = f # rest"
      "stack c1 = Frames (f(attr \<mapsto> v) # rest)"
      using setattr_ok[OF a assms(3) ok] by blast
    have l1: "0 < length (f(attr \<mapsto> v) # rest)" by simp
    obtain c3 fs3 where c3: "run_ops ops c1 = Some c3" "stack c3 = Frames fs3"
      "length fs3 = length (f(attr \<mapsto> v) # rest)" "tl fs3 = tl (f(attr \<mapsto> v) # rest)"
      "(fs3 ! 0) attr = ((f(attr \<mapsto> v) # rest) ! 0) attr"
      using paired_stack[OF assms(1,2) c1(3) l1, of attr] u by (auto simp: drop_Suc_tl)
    have ne3: "fs3 \<noteq> []" using c3(3) by auto
    have "lookup_frames fs3 attr = lookup_frames (f(attr \<mapsto> v) # rest) attr"
      using ne3 c3(5) c3(4) by (intro lookup_frames_cong) simp_all
    then have "attribute c3 attr = Some (Inr (Value v))"
      by (simp add: attribute_frame_name[OF c3(2) n])
    with c1(1) c3(1) show ?thesis by blast
  qed
  show ?thesis
  proof (rule exI[of _ c'], rule exI[of _ frames'], intro conjI)
    show "run_ops ops c = Some c'" by (rule r(1))
    show "stack c' = Frames frames'" by (rule r(2))
    show "length frames' = length frames" by (rule r(3))
    show "tl frames' = tl frames" by (rule r(4))
    show "\<exists>c2 frames2. run_ops (outer_ops 0 ops) c = Some c2 \<and> stack c2 = Frames frames2 \<and>
            last frames' = last frames2"
      using r2(1,2) root by blast
    show "frame_name attr \<and> (\<forall>x\<in>set (outer_ops 0 ops). \<not> touches attr x) \<longrightarrow>
            attribute c' attr = attribute c attr"
      using g1 by blast
    show "frame_name attr \<and> (\<forall>x\<in>set (outer_ops 0 ops). \<not> touches attr x) \<and>
            fst (setattr c attr v site) = None \<longrightarrow>
            (\<exists>c1 c3. snd (setattr c attr v site) = Some c1 \<and> run_ops ops c1 = Some c3 \<and>
               attribute c3 attr = Some (Inr (Value v)))"
      using g2 by blast
  qed
qed

theorem scope_stack_invariant_witness:
  "paired 0 [Push, Set ''x'' (PyInt 1) (''steps.py'', 3, ''step_impl'', ''context.x = 1''), Pop] \<and>
   public_set (Set ''x'' (PyInt 1) (''steps.py'', 3, ''step_impl'', ''context.x = 1'')) \<and>
   stack (Context_init False) = Frames [root_frame] \<and>
   frame_name ''failed'' \<and> frame_name ''x'' \<and>
   map_option stack
     (run_ops [Push, Set ''x'' (PyInt 1) (''steps.py'', 3, ''step_impl'', ''context.x = 1''), Pop]
        (Context_init False)) = Some (Frames [root_frame]) \<and>
   map_option (\<lambda>c. attribute c ''failed'')
     (run_ops [Push, Set ''x'' (PyInt 1) (''steps.py'', 3, ''step_impl'', ''context.x = 1''), Pop]
        (Context_init False)) = Some (Some (Inr (Value (PyBool False)))) \<and>
   fst (setattr (Context_init False) ''x'' (PyInt 7)
          (''environment.py'', 2, ''before_all'', ''context.x = 7'')) = None \<and>
   Option.bind
     (snd (setattr (Context_init False) ''x'' (PyInt 7)
             (''environment.py'', 2, ''before_all'', ''context.x = 7'')))
     (\<lambda>c1. map_option (\<lambda>c. attribute c ''x'')
        (run_ops [Push, Set ''x'' (PyInt 1) (''steps.py'', 3, ''step_impl'', ''context.x = 1''), Pop]
           c1)) = Some (Some (Inr (Value (PyInt 7))))"
proof -
  let ?ops = "[Push, Set ''x'' (PyInt 1) (''steps.py'', 3, ''step_impl'', ''context.x = 1''), Pop]"
  let ?site = "(''environment.py'', 2, ''before_all'', ''context.x = 7'')"
  have p: "paired 0 ?ops" by simp
  have q: "\<forall>x\<in>set ?ops. public_set x" by (simp add: is_private_def)
  have s: "stack (Context_init False) = Frames [root_frame]" by (simp add: Context_init_def)
  have n: "[root_frame] \<noteq> []" by simp
  have f1: "frame_name ''failed''"
    by (simp add: frame_name_def is_private_def public_class_attributes_def)
  have f2: "frame_name ''x''"
    by (simp add: frame_name_def is_private_def public_class_attributes_def)
  have u: "\<forall>x\<in>set (outer_ops 0 ?ops). \<not> touches a x" for a by simp
  have ok: "fst (setattr (Context_init False) ''x'' (PyInt 7) ?site) = None"
    by (simp add: ctx_defs)
  obtain c' frames' where 1: "run_ops ?ops (Context_init False) = Some c'"
    "stack c' = Frames frames'" "length frames' = length [root_frame]"
    "tl frames' = tl [root_frame]"
    "attribute c' ''failed'' = attribute (Context_init False) ''failed''"
    using scope_stack_invariant [OF p q s n, of "''failed''" "PyInt 7" ?site] f1 u by blast
  have a: "attribute (Context_init False) ''failed'' = Some (Inr (Value (PyBool False)))"
    by (simp add: ctx_defs)
  obtain c1 c3 where 2: "snd (setattr (Context_init False) ''x'' (PyInt 7) ?site) = Some c1"
    "run_ops ?ops c1 = Some c3" "attribute c3 ''x'' = Some (Inr (Value (PyInt 7)))"
    using scope_stack_invariant [OF p q s n, of "''x''" "PyInt 7" ?site] f2 u ok by blast
  have st: "map_option stack (run_ops ?ops (Context_init False)) = Some (Frames [root_frame])"
    by (simp add: ctx_defs)
  show ?thesis
    using p s f1 f2 ok st 1(1,5) a 2 by (simp add: is_private_def)
qed

text \<open>
  Claim C8 as stated allows any assignment among the calls and speaks of any name. An
  assignment to \<open>_stack\<close> replaces the stack itself: after it, the paired push and pop
  raise AttributeError, no root frame is left and a read of \<open>failed\<close>, which the root
  frame held, raises TypeError. And a name that the class defines reads as the attribute
  of the class, not as the value that was set.
\<close>

theorem scope_stack_counterexample:
  "paired 0 [Set ''_stack'' PyNone (''steps.py'', 3, ''step_impl'', ''context._stack = None''),
             Push, Pop] \<and>
   attribute (Context_init False) ''failed'' = Some (Inr (Value (PyBool False))) \<and>
   map_option stack
     (run_ops [Set ''_stack'' PyNone (''steps.py'', 3, ''step_impl'', ''context._stack = None''),
               Push, Pop] (Context_init False)) = Some (NoSequence PyNone) \<and>
   map_option (\<lambda>c. attribute c ''failed'')
     (run_ops [Set ''_stack'' PyNone (''steps.py'', 3, ''step_impl'', ''context._stack = None''),
               Push, Pop] (Context_init False)) = Some (Some (Inl TypeError)) \<and>
   fst (setattr (Context_init False) ''BEHAVE'' (PyInt 1)
          (''steps.py'', 3, ''step_impl'', ''context.BEHAVE = 1'')) = None \<and>
   map_option (\<lambda>c. attribute c ''BEHAVE'')
     (snd (setattr (Context_init False) ''BEHAVE'' (PyInt 1)
             (''steps.py'', 3, ''step_impl'', ''context.BEHAVE = 1'')))
     = Some (Some (Inr (ClassAttribute ''BEHAVE'')))"
  by (simp add: ctx_defs)

section \<open>Properties of the parallel scheduler\<close>

subsection \<open>Partitioning\<close>

lemma add_feature_job_ok:
  "sched_ok s \<Longrightarrow> sched_ok (add_feature_job job s) \<and>
     joblist (add_feature_job job s) = joblist s @ [job]"
  by (simp add: sched_ok_def add_feature_job_def)

lemma add_scenario_job_ok:
  "sched_ok s \<Longrightarrow> sched_ok (add_scenario_job job s) \<and>
     joblist (add_scenario_job job s) = joblist s @ [job]"
  by (simp add: sched_ok_def add_scenario_job_def)

lemma add_subscenarios_ok:
  "sched_ok s \<Longrightarrow> sched_ok (add_subscenarios subs s) \<and>
     joblist (add_subscenarios subs s) = joblist s @ subs"
proof (induction subs arbitrary: s)
  case Nil
  then show ?case by simp
next
  case (Cons x subs)
  from add_scenario_job_ok[OF Cons.prems, of x] Cons.IH[of "add_scenario_job x s"]
  show ?case by simp
qed

lemma add_scenarios_ok:
  "sched_ok s \<Longrightarrow> sched_ok (add_scenarios scs s) \<and>
     joblist (add_scenarios scs s) = joblist s @ concat (map spec_jobs_of_scenario scs)"
proof (induction scs arbitrary: s)
  case Nil
  then show ?case by simp
next
  case (Cons x scs)
  let ?s1 = "if etype (attrs x) = ''scenario'' then add_scenario_job x s
             else add_subscenarios (scenarios x) s"
  have 1: "sched_ok ?s1 \<and> joblist ?s1 = joblist s @ spec_jobs_of_scenario x"
    using add_scenario_job_ok[OF Cons.prems, of x] add_subscenarios_ok[OF Cons.prems, of "scenarios x"]
    by (simp add: spec_jobs_of_scenario_def)
  from Cons.IH[of ?s1] 1 show ?case by simp
qed

lemma add_features_ok:
  "sched_ok s \<Longrightarrow> sched_ok (add_features pe fs s) \<and>
     joblist (add_features pe fs s) = joblist s @ concat (map (spec_jobs_of_feature pe) fs)"
proof (induction fs arbitrary: s)
  case Nil
  then show ?case by simp
next
  case (Cons x fs)
  let ?s1 = "if pe = ''feature'' \<or> ''serial'' \<in> set (tags (attrs x))
             then add_feature_job x s else add_scenarios (scenarios x) s"
  have 1: "sched_ok ?s1 \<and> joblist ?s1 = joblist s @ spec_jobs_of_feature pe x"
    using add_feature_job_ok[OF Cons.prems, of x] add_scenarios_ok[OF Cons.prems, of "scenarios x"]
    by (simp add: spec_jobs_of_feature_def)
  from Cons.IH[of ?s1] 1 show ?case by simp
qed

text \<open>
  Claim C2. With a valid \<open>parallel_element\<close> the job list is, feature by feature in order,
  the feature itself when the option is \<open>feature\<close> or the feature has the tag
  \<open>serial\<close>, and otherwise its plain scenarios and, for each outline, the sub-scenarios
  of the outline (one job for each, the outline itself being no job); the index queue holds
  the positions \<open>0, 1, \<dots>\<close> of the job list in order, so the \<open>i\<close>-th index put on the queue
  is the position of the \<open>i\<close>-th job made.
\<close>

theorem partition_jobs_correct:
  assumes "parallel_element = ''feature'' \<or> parallel_element = ''scenario''"
  shows "\<exists>s. partition_jobs parallel_element features = Some s \<and>
           joblist s = concat (map (spec_jobs_of_feature parallel_element) features) \<and>
           joblist_index_queue s = [0..<length (joblist s)]"
proof -
  have "sched_ok scheduler_init" by (simp add: sched_ok_def scheduler_init_def)
  from add_features_ok[OF this, of parallel_element features] assms
  show ?thesis by (auto simp: partition_jobs_def sched_ok_def scheduler_init_def)
qed

theorem partition_jobs_correct_witness:
  "(''scenario'' = ''feature'' \<or> ''scenario'' = ''scenario'') \<and>
   map_option joblist (partition_jobs ''scenario''
     [example_element ''feature'' ''A'' [''serial''] [] []
        [example_element ''scenario'' ''A1'' [] [] [] [],
         example_element ''scenario'' ''A2'' [] [] [] []],
      example_element ''feature'' ''B'' [] [] []
        [example_element ''scenario_outline'' ''O'' [] [] []
           [example_element ''scenario'' ''O1'' [] [] [] [],
            example_element ''scenario'' ''O2'' [] [] [] []],
         example_element ''scenario'' ''B1'' [] [] [] []]]) =
   Some [example_element ''feature'' ''A'' [''serial''] [] []
           [example_element ''scenario'' ''A1'' [] [] [] [],
            example_element ''scenario'' ''A2'' [] [] [] []],
         example_element ''scenario'' ''O1'' [] [] [] [],
         example_element ''scenario'' ''O2'' [] [] [] [],
         example_element ''scenario'' ''B1'' [] [] [] []] \<and>
   map_option joblist_index_queue (partition_jobs ''scenario''
     [example_element ''feature'' ''A'' [''serial''] [] []
        [example_element ''scenario'' ''A1'' [] [] [] [],
         example_element ''scenario'' ''A2'' [] [] [] []],
      example_element ''feature'' ''B'' [] [] []
        [example_element ''scenario_outline'' ''O'' [] [] []
           [example_element ''scenario'' ''O1'' [] [] [] [],
            example_element ''scenario'' ''O2'' [] [] [] []],
         example_element ''scenario'' ''B1'' [] [] [] []]]) = Some [0, 1, 2, 3]"
proof -
  have h: "''scenario'' = ''feature'' \<or> ''scenario'' = ''scenario''" by simp
  have u: "[0..<4] = [0, 1, 2, 3]" by (simp add: upt_rec)
  show ?thesis
    using h partition_jobs_correct [OF h, of
     "[example_element ''feature'' ''A'' [''serial''] [] []
        [example_element ''scenario'' ''A1'' [] [] [] [],
         example_element ''scenario'' ''A2'' [] [] [] []],
      example_element ''feature'' ''B'' [] [] []
        [example_element ''scenario_outline'' ''O'' [] [] []
           [example_element ''scenario'' ''O1'' [] [] [] [],
            example_element ''scenario'' ''O2'' [] [] [] []],
         example_element ''scenario'' ''B1'' [] [] [] []]]"]
    by (auto simp: spec_jobs_of_feature_def spec_jobs_of_scenario_def example_element_def u)
qed

subsection \<open>The worker loop\<close>

lemma worker_append:
  "worker config_format run jobs proc_number (map Deliver indexes @ behind) resultsqueue =
     (if fst (worker config_format run jobs proc_number (map Deliver indexes) resultsqueue) =
           LoopBroken
      then worker config_format run jobs proc_number behind
             (fst (snd (worker config_format run jobs proc_number (map Deliver indexes)
                          resultsqueue)))
      else (fst (worker config_format run jobs proc_number (map Deliver indexes) resultsqueue),
            fst (snd (worker config_format run jobs proc_number (map Deliver indexes)
                        resultsqueue)),
            snd (snd (worker config_format run jobs proc_number (map Deliver indexes)
                        resultsqueue)) @ behind))"
proof (induction indexes arbitrary: resultsqueue)
  case Nil
  show ?case by simp
next
  case (Cons joblist_index indexes)
  show ?case
  proof (cases "joblist_index < length jobs")
    case False
    then show ?thesis by simp
  next
    case True
    note lt = this
    show ?thesis
    proof (cases "run (jobs ! joblist_index)")
      case (RunRaised e)
      then show ?thesis using lt by simp
    next
      case (Ran ex)
      note ran = this
      show ?thesis
      proof (cases "generatereport config_format proc_number (executed ex) (start_time ex)
                      (end_time ex) (buffer_text ex)")
        case (Inl e)
        then show ?thesis using lt ran by simp
      next
        case (Inr job_report_text)
        show ?thesis
          using lt ran Inr
            Cons.IH[of "if job_report_text \<noteq> []
                        then resultsqueue @ [job_result (executed ex) job_report_text]
                        else resultsqueue"]
          by simp
      qed
    qed
  qed
qed

lemma worker_fault_prefix:
  "fst (worker config_format run jobs proc_number (queue @ Fault (ExceptionClass e) # rest)
          resultsqueue) =
     fst (worker config_format run jobs proc_number queue resultsqueue) \<and>
   fst (snd (worker config_format run jobs proc_number (queue @ Fault (ExceptionClass e) # rest)
               resultsqueue)) =
     fst (snd (worker config_format run jobs proc_number queue resultsqueue))"
proof (induction config_format run jobs proc_number queue resultsqueue rule: worker.induct)
  case (1 config_format run jobs proc_number resultsqueue)
  show ?case by simp
next
  case (2 config_format run jobs proc_number e' queue resultsqueue)
  show ?case by simp
next
  case (3 config_format run jobs proc_number e' queue resultsqueue)
  show ?case by simp
next
  case (4 config_format run jobs proc_number joblist_index queue resultsqueue)
  then show ?case by (simp split: run_result.splits sum.splits)
qed

text \<open>
  Claim C3, as amended. The worker's loop ends by its \<open>break\<close> at the first dequeue that
  raises an exception of the class \<open>Exception\<close>, whether \<open>Empty\<close> on the empty queue or
  another one on a queue that still holds indexes. On any queue, a dequeue that raises
  such an exception gives the exit and the results that the end of the queue at that
  place gives. When the indexes before it are all taken and their jobs run to the end
  (the worker on these indexes alone ends by the \<open>break\<close>), the worker ends by the
  \<open>break\<close> with the results of these jobs, and everything behind the failing dequeue is
  left on the queue. An exception of a class outside \<open>Exception\<close> at the same place is
  not caught: the worker ends with it, with the same results and the same rest of the
  queue.
\<close>

theorem worker_fault_as_empty:
  "(fst (worker config_format run jobs proc_number (queue @ Fault (ExceptionClass e) # rest)
           resultsqueue) =
      fst (worker config_format run jobs proc_number queue resultsqueue) \<and>
    fst (snd (worker config_format run jobs proc_number (queue @ Fault (ExceptionClass e) # rest)
                resultsqueue)) =
      fst (snd (worker config_format run jobs proc_number queue resultsqueue))) \<and>
   (fst (worker config_format run jobs proc_number (map Deliver indexes) resultsqueue) =
        LoopBroken \<longrightarrow>
      worker config_format run jobs proc_number (map Deliver indexes) resultsqueue =
        (LoopBroken,
         fst (snd (worker config_format run jobs proc_number (map Deliver indexes) resultsqueue)),
         []) \<and>
      worker config_format run jobs proc_number
          (map Deliver indexes @ Fault (ExceptionClass e) # rest) resultsqueue =
        (LoopBroken,
         fst (snd (worker config_format run jobs proc_number (map Deliver indexes) resultsqueue)),
         rest) \<and>
      worker config_format run jobs proc_number
          (map Deliver indexes @ Fault (OtherBaseException e) # rest) resultsqueue =
        (DequeueRaised e,
         fst (snd (worker config_format run jobs proc_number (map Deliver indexes) resultsqueue)),
         rest))"
proof (intro conjI impI)
  show "fst (worker config_format run jobs proc_number (queue @ Fault (ExceptionClass e) # rest)
               resultsqueue) =
          fst (worker config_format run jobs proc_number queue resultsqueue)"
    using worker_fault_prefix by (rule conjunct1)
  show "fst (snd (worker config_format run jobs proc_number
                    (queue @ Fault (ExceptionClass e) # rest) resultsqueue)) =
          fst (snd (worker config_format run jobs proc_number queue resultsqueue))"
    using worker_fault_prefix by (rule conjunct2)
next
  assume b: "fst (worker config_format run jobs proc_number (map Deliver indexes) resultsqueue) =
               LoopBroken"
  show "worker config_format run jobs proc_number
          (map Deliver indexes @ Fault (ExceptionClass e) # rest) resultsqueue =
        (LoopBroken,
         fst (snd (worker config_format run jobs proc_number (map Deliver indexes) resultsqueue)),
         rest)"
    using b by (simp add: worker_append)
  show "worker config_format run jobs proc_number
          (map Deliver indexes @ Fault (OtherBaseException e) # rest) resultsqueue =
        (DequeueRaised e,
         fst (snd (worker config_format run jobs proc_number (map Deliver indexes) resultsqueue)),
         rest)"
    using b by (simp add: worker_append)
  have "worker config_format run jobs proc_number (map Deliver indexes @ []) resultsqueue =
          worker config_format run jobs proc_number []
            (fst (snd (worker config_format run jobs proc_number (map Deliver indexes)
                         resultsqueue)))"
    using b by (subst worker_append) simp
  then show "worker config_format run jobs proc_number (map Deliver indexes) resultsqueue =
        (LoopBroken,
         fst (snd (worker config_format run jobs proc_number (map Deliver indexes) resultsqueue)),
         [])"
    by simp
qed

theorem worker_fault_as_empty_witness:
  "fst (worker [''pretty'']
     (\<lambda>job. Ran \<lparr>executed = job, buffer_text = ''Scenario: S1'', start_time = ''10:00'',
                   end_time = ''10:01''\<rparr>)
     [example_element ''scenario'' ''S1'' [] ''passed'' [] []] 0 (map Deliver [0]) []) =
     LoopBroken \<and>
   fst (worker [''pretty'']
     (\<lambda>job. Ran \<lparr>executed = job, buffer_text = ''Scenario: S1'', start_time = ''10:00'',
                   end_time = ''10:01''\<rparr>)
     [example_element ''scenario'' ''S1'' [] ''passed'' [] []] 0
     [Deliver 0, Fault (ExceptionClass ''EOFError''), Deliver 0] []) = LoopBroken \<and>
   length (fst (snd (worker [''pretty'']
     (\<lambda>job. Ran \<lparr>executed = job, buffer_text = ''Scenario: S1'', start_time = ''10:00'',
                   end_time = ''10:01''\<rparr>)
     [example_element ''scenario'' ''S1'' [] ''passed'' [] []] 0
     [Deliver 0, Fault (ExceptionClass ''EOFError''), Deliver 0] []))) = 1 \<and>
   snd (snd (worker [''pretty'']
     (\<lambda>job. Ran \<lparr>executed = job, buffer_text = ''Scenario: S1'', start_time = ''10:00'',
                   end_time = ''10:01''\<rparr>)
     [example_element ''scenario'' ''S1'' [] ''passed'' [] []] 0
     [Deliver 0, Fault (ExceptionClass ''EOFError''), Deliver 0] [])) = [Deliver 0] \<and>
   fst (worker [''pretty'']
     (\<lambda>job. Ran \<lparr>executed = job, buffer_text = ''Scenario: S1'', start_time = ''10:00'',
                   end_time = ''10:01''\<rparr>)
     [example_element ''scenario'' ''S1'' [] ''passed'' [] []] 0
     [Deliver 0, Fault (OtherBaseException ''EOFError''), Deliver 0] []) =
     DequeueRaised ''EOFError''"
proof -
  let ?jobs = "[example_element ''scenario'' ''S1'' [] ''passed'' [] []]"
  let ?loud = "\<lambda>job. Ran \<lparr>executed = job, buffer_text = ''Scenario: S1'', start_time = ''10:00'',
                              end_time = ''10:01''\<rparr>"
  let ?w = "worker [''pretty''] ?loud ?jobs 0 (map Deliver [0]) []"
  have b: "fst ?w = LoopBroken"
    by (simp add: generatereport_def Let_def example_element_def)
  have n: "length (fst (snd ?w)) = 1"
    by (simp add: generatereport_def Let_def example_element_def newline_def)
  note t = worker_fault_as_empty [where config_format = "[''pretty'']" and run = ?loud
      and jobs = ?jobs and proc_number = 0 and indexes = "[0]" and resultsqueue = "[]"
      and e = "''EOFError''" and rest = "[Deliver 0]" and queue = "[]",
      THEN conjunct2, THEN mp, OF b]
  have 1: "worker [''pretty''] ?loud ?jobs 0
             (map Deliver [0] @ Fault (ExceptionClass ''EOFError'') # [Deliver 0]) [] =
           (LoopBroken, fst (snd ?w), [Deliver 0])"
    using t by (rule conjunct2[THEN conjunct1])
  have 2: "worker [''pretty''] ?loud ?jobs 0
             (map Deliver [0] @ Fault (OtherBaseException ''EOFError'') # [Deliver 0]) [] =
           (DequeueRaised ''EOFError'', fst (snd ?w), [Deliver 0])"
    using t by (rule conjunct2[THEN conjunct2])
  have q1: "[Deliver 0, Fault (ExceptionClass ''EOFError''), Deliver 0] =
            map Deliver [0] @ Fault (ExceptionClass ''EOFError'') # [Deliver 0]" by simp
  have q2: "[Deliver 0, Fault (OtherBaseException ''EOFError''), Deliver 0] =
            map Deliver [0] @ Fault (OtherBaseException ''EOFError'') # [Deliver 0]" by simp
  show ?thesis unfolding q1 q2 1 2 using b n by simp
qed

text \<open>
  Claim C3 as stated says that the loop ends by its \<open>break\<close> only on the empty queue and
  that another failure of the dequeue is not taken for the end of the work. On a queue whose
  first dequeue raises \<open>EOFError\<close>, an exception of the class \<open>Exception\<close> other than
  \<open>Empty\<close>, and which still holds the index \<open>0\<close>, the worker ends by the same \<open>break\<close> as
  on the empty queue, without a result, and the index stays on the queue.
\<close>

theorem worker_fault_counterexample:
  "worker [''pretty''] (\<lambda>job. RunRaised ''never run'')
     [example_element ''scenario'' ''S1'' [] ''passed'' [] []] 0
     [Fault (ExceptionClass ''EOFError''), Deliver 0] [] = (LoopBroken, [], [Deliver 0]) \<and>
   worker [''pretty''] (\<lambda>job. RunRaised ''never run'')
     [example_element ''scenario'' ''S1'' [] ''passed'' [] []] 0
     [] [] = (LoopBroken, [], [])"
  by simp

lemma generatereport_empty:
  "generatereport config_format proc_number job st en [] = Inr []"
  by (simp add: generatereport_def)

lemma generatereport_nonempty:
  assumes "writebuf \<noteq> []" "config_format \<noteq> []"
  shows "\<exists>text. text \<noteq> [] \<and> generatereport config_format proc_number job st en writebuf = Inr text"
proof -
  obtain fmt fs where f: "config_format = fmt # fs" using assms(2) by (cases config_format) auto
  show ?thesis using assms(1) by (simp add: generatereport_def f Let_def newline_def)
qed

text \<open>
  Claim C4. A job is taken from the queue and run. When the run wrote nothing to the
  buffer, the worker goes on as if the job had not been on the queue: it puts no result,
  and the totals aggregated from the results queue are those without the job. When the run
  wrote something (and \<open>config.format\<close> has a first element to read), the worker puts
  exactly one result for the job, with a non-empty report text.
\<close>

theorem dropped_results:
  assumes "joblist_index < length jobs" "run (jobs ! joblist_index) = Ran ex"
  shows "(buffer_text ex = [] \<longrightarrow>
            worker config_format run jobs proc_number (Deliver joblist_index # queue) resultsqueue =
              worker config_format run jobs proc_number queue resultsqueue \<and>
            aggregate (fst (snd (worker config_format run jobs proc_number
                                   (Deliver joblist_index # queue) resultsqueue))) =
              aggregate (fst (snd (worker config_format run jobs proc_number queue resultsqueue)))) \<and>
         (buffer_text ex \<noteq> [] \<and> config_format \<noteq> [] \<longrightarrow>
            (\<exists>text. text \<noteq> [] \<and>
               worker config_format run jobs proc_number (Deliver joblist_index # queue) resultsqueue =
                 worker config_format run jobs proc_number queue
                   (resultsqueue @ [job_result (executed ex) text])))"
proof (cases "buffer_text ex = []")
  case True
  then show ?thesis using assms by (simp add: generatereport_empty)
next
  case False
  show ?thesis
  proof (cases "config_format = []")
    case True
    with False show ?thesis by simp
  next
    case False
    note nf = this
    obtain report where t: "report \<noteq> []"
      "generatereport config_format proc_number (executed ex) (start_time ex) (end_time ex)
         (buffer_text ex) = Inr report"
      using generatereport_nonempty[OF \<open>buffer_text ex \<noteq> []\<close> nf] by blast
    show ?thesis using assms \<open>buffer_text ex \<noteq> []\<close> t by auto
  qed
qed

theorem dropped_results_witness:
  "0 < length [example_element ''scenario'' ''S1'' [] ''passed''
                 [\<lparr>step_name = ''a step'', step_status = ''passed''\<rparr>] []] \<and>
   worker [''pretty'']
     (\<lambda>job. Ran \<lparr>executed = job, buffer_text = [], start_time = ''10:00'', end_time = ''10:01''\<rparr>)
     [example_element ''scenario'' ''S1'' [] ''passed''
        [\<lparr>step_name = ''a step'', step_status = ''passed''\<rparr>] []] 0 [Deliver 0] []
     = (LoopBroken, [], []) \<and>
   aggregate (fst (snd (worker [''pretty'']
     (\<lambda>job. Ran \<lparr>executed = job, buffer_text = [], start_time = ''10:00'', end_time = ''10:01''\<rparr>)
     [example_element ''scenario'' ''S1'' [] ''passed''
        [\<lparr>step_name = ''a step'', step_status = ''passed''\<rparr>] []] 0 [Deliver 0] []))) = tally_init \<and>
   length (fst (snd (worker [''pretty'']
     (\<lambda>job. Ran \<lparr>executed = job, buffer_text = ''Scenario: S1'', start_time = ''10:00'',
                   end_time = ''10:01''\<rparr>)
     [example_element ''scenario'' ''S1'' [] ''passed''
        [\<lparr>step_name = ''a step'', step_status = ''passed''\<rparr>] []] 0 [Deliver 0] []))) = 1"
proof -
  let ?jobs = "[example_element ''scenario'' ''S1'' [] ''passed''
                 [\<lparr>step_name = ''a step'', step_status = ''passed''\<rparr>] []]"
  let ?quiet = "\<lambda>job. Ran \<lparr>executed = job, buffer_text = [], start_time = ''10:00'',
                              end_time = ''10:01''\<rparr>"
  let ?loud = "\<lambda>job. Ran \<lparr>executed = job, buffer_text = ''Scenario: S1'', start_time = ''10:00'',
                              end_time = ''10:01''\<rparr>"
  let ?exq = "\<lparr>executed = ?jobs ! 0, buffer_text = [], start_time = ''10:00'',
                end_time = ''10:01''\<rparr>"
  let ?exl = "\<lparr>executed = ?jobs ! 0, buffer_text = ''Scenario: S1'', start_time = ''10:00'',
                end_time = ''10:01''\<rparr>"
  have l: "0 < length ?jobs" by simp
  have q: "?quiet (?jobs ! 0) = Ran ?exq" by simp
  have r: "?loud (?jobs ! 0) = Ran ?exl" by simp
  have bq: "buffer_text ?exq = []" by simp
  have bl: "buffer_text ?exl \<noteq> [] \<and> [''pretty''] \<noteq> []" by simp
  note dq = dropped_results [where joblist_index = 0 and jobs = ?jobs and run = ?quiet
      and ex = ?exq and config_format = "[''pretty'']" and proc_number = 0 and queue = "[]"
      and resultsqueue = "[]", OF l q]
  note dl = dropped_results [where joblist_index = 0 and jobs = ?jobs and run = ?loud
      and ex = ?exl and config_format = "[''pretty'']" and proc_number = 0 and queue = "[]"
      and resultsqueue = "[]", OF l r]
  have e: "worker [''pretty''] ?quiet ?jobs 0 [Deliver 0] [] = worker [''pretty''] ?quiet ?jobs 0 [] []"
    using dq [THEN conjunct1, THEN mp, OF bq] by (rule conjunct1)
  have 1: "worker [''pretty''] ?quiet ?jobs 0 [Deliver 0] [] = (LoopBroken, [], [])"
    unfolding e by simp
  have 2: "aggregate (fst (snd (worker [''pretty''] ?quiet ?jobs 0 [Deliver 0] []))) = tally_init"
    unfolding 1 by (simp add: aggregate_def)
  obtain report where
    "worker [''pretty''] ?loud ?jobs 0 [Deliver 0] [] =
       worker [''pretty''] ?loud ?jobs 0 [] ([] @ [job_result (executed ?exl) report])"
    using dl [THEN conjunct2, THEN mp, OF bl] by blast
  then have 3: "length (fst (snd (worker [''pretty''] ?loud ?jobs 0 [Deliver 0] []))) = 1"
    by simp
  show ?thesis using l 1 2 3 by blast
qed

subsection \<open>Aggregation\<close>

lemma str_in_sublist: "str_in w s = sublist w s"
  by (induction s) (simp_all add: sublist_Cons_right)

lemma prefix_sep:
  assumes "sep \<notin> set w" "prefix w (sep # t)"
  shows "w = []"
  using assms by (cases w) auto

lemma sublist_sep:
  assumes "sep \<notin> set w"
  shows "sublist w (s @ sep # t) = (sublist w s \<or> sublist w t)"
proof
  assume "sublist w (s @ sep # t)"
  then consider "sublist w s" | "sublist w (sep # t)"
    | w1 w2 where "w = w1 @ w2" "suffix w1 s" "prefix w2 (sep # t)"
    unfolding sublist_append by blast
  then show "sublist w s \<or> sublist w t"
  proof cases
    case 1
    then show ?thesis by simp
  next
    case 2
    then have "prefix w (sep # t) \<or> sublist w t" by (simp add: sublist_Cons_right)
    then show ?thesis
    proof
      assume "prefix w (sep # t)"
      with assms have "w = []" by (rule prefix_sep)
      then show ?thesis by simp
    next
      assume "sublist w t"
      then show ?thesis by simp
    qed
  next
    case 3
    have "sep \<notin> set w2" using assms 3(1) by simp
    then have "w2 = []" using 3(3) by (rule prefix_sep)
    then have "suffix w s" using 3(1,2) by simp
    then obtain zs where "s = zs @ w" by (auto simp: suffix_def)
    then have "sublist w s" by simp
    then show ?thesis by simp
  qed
next
  assume "sublist w s \<or> sublist w t"
  then show "sublist w (s @ sep # t)"
  proof
    assume "sublist w s"
    then show ?thesis by (auto simp: sublist_append)
  next
    assume "sublist w t"
    then have "sublist w (sep # t)" by (simp add: sublist_Cons_right)
    then show ?thesis by (auto simp: sublist_append)
  qed
qed

lemma str_in_join_bar:
  assumes "CHR ''|'' \<notin> set w" "w \<noteq> []"
  shows "str_in w (join_bar ss) = (\<exists>s\<in>set ss. str_in w s)"
proof (induction ss rule: join_bar.induct)
  case 1
  show ?case using assms(2) by simp
next
  case (2 s)
  show ?case by simp
next
  case (3 s v va)
  have "str_in w (join_bar (s # v # va)) = sublist w (s @ CHR ''|'' # join_bar (v # va))"
    by (simp add: str_in_sublist)
  also have "\<dots> = (sublist w s \<or> sublist w (join_bar (v # va)))"
    using assms(1) by (rule sublist_sep)
  also have "\<dots> = (str_in w s \<or> (\<exists>x\<in>set (v # va). str_in w x))"
    using 3 by (simp add: str_in_sublist)
  finally show ?case by simp
qed

lemma job_statuses_plain: "s \<in> job_statuses \<Longrightarrow> plain_status s"
  by (auto simp: job_statuses_def plain_status_def)

lemma str_in_plain_status:
  assumes "plain_status s"
  shows "str_in ''failed'' s = (s = ''failed'')" "str_in ''passed'' s = (s = ''passed'')"
  using assms by (auto simp: plain_status_def)

lemma join_bar_Cons: "join_bar (a # xs) = (if xs = [] then a else a @ ''|'' @ join_bar xs)"
  by (cases xs) simp_all

lemma accumulate_Some: "accumulate (Some s) ss = Some (join_bar (s # ss))"
proof (induction ss arbitrary: s)
  case Nil
  show ?case by simp
next
  case (Cons x xs)
  have "accumulate (Some s) (x # xs) = Some (join_bar ((s @ ''|'' @ x) # xs))"
    using Cons.IH[of "s @ ''|'' @ x"] by simp
  also have "join_bar ((s @ ''|'' @ x) # xs) = join_bar (s # x # xs)"
    by (simp add: join_bar_Cons)
  finally show ?case .
qed

lemma accumulate_None: "accumulate None ss = (if ss = [] then None else Some (join_bar ss))"
  by (cases ss) (simp_all add: accumulate_Some)

lemma absorb_map_of:
  "map_of (fst (absorb r (combined, t))) key =
     (if jobtype r \<noteq> ''feature'' \<and> uniquekey r = key
      then accumulate (map_of combined key) [result_status r]
      else map_of combined key)"
  by (cases "map_of combined (uniquekey r)")
     (auto simp: absorb_def Let_def update_conv' split: prod.splits)

lemma drain_map_of:
  "map_of (fst (drain rs (combined, t))) key =
     accumulate (map_of combined key) (scenario_statuses key rs)"
proof (induction rs arbitrary: combined t)
  case Nil
  show ?case by (simp add: scenario_statuses_def)
next
  case (Cons r rs)
  obtain combined1 t1 where a: "absorb r (combined, t) = (combined1, t1)"
    by (cases "absorb r (combined, t)")
  have m: "map_of combined1 key =
     (if jobtype r \<noteq> ''feature'' \<and> uniquekey r = key
      then accumulate (map_of combined key) [result_status r]
      else map_of combined key)"
    using absorb_map_of[of r combined t key] a by simp
  have "map_of (fst (drain (r # rs) (combined, t))) key =
          accumulate (map_of combined1 key) (scenario_statuses key rs)"
    using a Cons.IH[of combined1 t1] by simp
  then show ?case using m by (simp add: scenario_statuses_def)
qed

lemma absorb_distinct:
  "distinct (map fst combined) \<Longrightarrow> distinct (map fst (fst (absorb r (combined, t))))"
  by (cases "map_of combined (uniquekey r)")
     (auto simp: absorb_def Let_def distinct_update split: prod.splits)

lemma drain_distinct:
  "distinct (map fst combined) \<Longrightarrow> distinct (map fst (fst (drain rs (combined, t))))"
proof (induction rs arbitrary: combined t)
  case Nil
  then show ?case by simp
next
  case (Cons r rs)
  obtain combined1 t1 where a: "absorb r (combined, t) = (combined1, t1)"
    by (cases "absorb r (combined, t)")
  have "distinct (map fst combined1)" using absorb_distinct[OF Cons.prems, of r t] a by simp
  from Cons.IH[OF this, of t1] a show ?case by simp
qed

lemma resolve_all_counts:
  "features_failed (resolve_all combined t) =
     features_failed t + length (filter (\<lambda>p. str_in ''failed'' (snd p)) combined) \<and>
   features_passed (resolve_all combined t) =
     features_passed t +
       length (filter (\<lambda>p. \<not> str_in ''failed'' (snd p) \<and> str_in ''passed'' (snd p)) combined) \<and>
   features_skipped (resolve_all combined t) =
     features_skipped t +
       length (filter (\<lambda>p. \<not> str_in ''failed'' (snd p) \<and> \<not> str_in ''passed'' (snd p)) combined)"
proof (induction combined arbitrary: t)
  case Nil
  show ?case by simp
next
  case (Cons p combined)
  obtain key combined_status where p: "p = (key, combined_status)" by (cases p)
  show ?case unfolding p using Cons.IH[of "resolve combined_status t"]
    by (simp add: resolve_def)
qed

lemma absorb_features:
  "features_failed (snd (absorb r (combined, t))) =
     features_failed t + (if jobtype r = ''feature'' \<and> result_status r = ''failed'' then 1 else 0) \<and>
   features_passed (snd (absorb r (combined, t))) =
     features_passed t + (if jobtype r = ''feature'' \<and> result_status r = ''passed'' then 1 else 0) \<and>
   features_skipped (snd (absorb r (combined, t))) =
     features_skipped t + (if jobtype r = ''feature'' \<and> result_status r = ''skipped'' then 1 else 0)"
  by (simp add: absorb_def Let_def split: prod.splits)

lemma drain_features:
  "features_failed (snd (drain rs (combined, t))) = features_failed t + feature_results ''failed'' rs \<and>
   features_passed (snd (drain rs (combined, t))) = features_passed t + feature_results ''passed'' rs \<and>
   features_skipped (snd (drain rs (combined, t))) =
     features_skipped t + feature_results ''skipped'' rs"
proof (induction rs arbitrary: combined t)
  case Nil
  show ?case by (simp add: feature_results_def)
next
  case (Cons r rs)
  obtain combined1 t1 where a: "absorb r (combined, t) = (combined1, t1)"
    by (cases "absorb r (combined, t)")
  have f: "features_failed t1 =
       features_failed t + (if jobtype r = ''feature'' \<and> result_status r = ''failed'' then 1 else 0)"
    "features_passed t1 =
       features_passed t + (if jobtype r = ''feature'' \<and> result_status r = ''passed'' then 1 else 0)"
    "features_skipped t1 =
       features_skipped t + (if jobtype r = ''feature'' \<and> result_status r = ''skipped'' then 1 else 0)"
    using absorb_features[of r combined t] a by simp_all
  show ?case using Cons.IH[of combined1 t1] a f by (simp add: feature_results_def)
qed

lemma scenario_statuses_keys:
  "(scenario_statuses key rs \<noteq> []) = (key \<in> set (scenario_keys rs))"
  by (auto simp: scenario_statuses_def scenario_keys_def filter_empty_conv)

lemma drain_keys:
  "set (map fst (fst (drain rs ([], t)))) = set (scenario_keys rs)"
proof -
  have "key \<in> fst ` set (fst (drain rs ([], t))) \<longleftrightarrow> key \<in> set (scenario_keys rs)" for key
  proof -
    have "key \<in> fst ` set (fst (drain rs ([], t))) \<longleftrightarrow>
            map_of (fst (drain rs ([], t))) key \<noteq> None"
      by (simp add: map_of_eq_None_iff)
    also have "\<dots> \<longleftrightarrow> scenario_statuses key rs \<noteq> []"
      by (simp add: drain_map_of accumulate_None)
    finally show ?thesis by (simp add: scenario_statuses_keys)
  qed
  then show ?thesis by auto
qed

lemma drain_entry:
  assumes "(key, combined_status) \<in> set (fst (drain rs ([], t)))"
  shows "combined_status = join_bar (scenario_statuses key rs)"
proof -
  have "distinct (map fst (fst (drain rs ([], t))))"
    using drain_distinct[of "[]" rs t] by simp
  then have "map_of (fst (drain rs ([], t))) key = Some combined_status"
    using assms by simp
  then have "accumulate None (scenario_statuses key rs) = Some combined_status"
    by (simp add: drain_map_of)
  then show ?thesis by (auto simp: accumulate_None split: if_splits)
qed

lemma count_by_keys:
  assumes "distinct (map fst combined)" "distinct keys" "set (map fst combined) = set keys"
    and "\<And>key s. (key, s) \<in> set combined \<Longrightarrow> P s = Q key"
  shows "length (filter (\<lambda>p. P (snd p)) combined) = length (filter Q keys)"
proof -
  have "filter (\<lambda>p. P (snd p)) combined = filter (\<lambda>p. Q (fst p)) combined"
    using assms(4) by (intro filter_cong) auto
  then have "length (filter (\<lambda>p. P (snd p)) combined) = length (filter Q (map fst combined))"
    by (simp add: filter_map comp_def)
  also have "\<dots> = card ({x. Q x} \<inter> set (map fst combined))"
    using assms(1) by (rule distinct_length_filter)
  also have "\<dots> = card ({x. Q x} \<inter> set keys)"
    using assms(3) by simp
  also have "\<dots> = length (filter Q keys)"
    using assms(2) by (simp add: distinct_length_filter)
  finally show ?thesis .
qed

text \<open>
  Claim C1. The results of scenario jobs on the queue have plain statuses, as
  \<open>passed\<close>, \<open>failed\<close>, \<open>skipped\<close> and \<open>undefined\<close> are. Then the dictionary after the
  queue is emptied has exactly the keys of the results of scenario jobs, under each key
  the statuses of the scenario results with that key, joined by the separator, and the
  numbers of features that \<open>run_multiproc\<close> reports are these: failed, the results of feature jobs
  with the status \<open>failed\<close> and the keys with a \<open>failed\<close> among the statuses of their
  scenario results; passed, the results of feature jobs with the status \<open>passed\<close> and the
  keys with no \<open>failed\<close> but a \<open>passed\<close> among them; skipped, the results of feature
  jobs with the status \<open>skipped\<close> and the keys with neither.
\<close>

theorem feature_status_priority:
  assumes "\<forall>r\<in>set resultsqueue. jobtype r \<noteq> ''feature'' \<longrightarrow> plain_status (result_status r)"
  shows "set (map fst (fst (drain resultsqueue ([], tally_init)))) =
           set (scenario_keys resultsqueue) \<and>
         (\<forall>key\<in>set (scenario_keys resultsqueue).
            map_of (fst (drain resultsqueue ([], tally_init))) key =
              Some (join_bar (scenario_statuses key resultsqueue))) \<and>
         features_failed (aggregate resultsqueue) =
           feature_results ''failed'' resultsqueue +
           length (filter (\<lambda>key. ''failed'' \<in> set (scenario_statuses key resultsqueue))
                     (scenario_keys resultsqueue)) \<and>
         features_passed (aggregate resultsqueue) =
           feature_results ''passed'' resultsqueue +
           length (filter (\<lambda>key. ''failed'' \<notin> set (scenario_statuses key resultsqueue) \<and>
                                  ''passed'' \<in> set (scenario_statuses key resultsqueue))
                     (scenario_keys resultsqueue)) \<and>
         features_skipped (aggregate resultsqueue) =
           feature_results ''skipped'' resultsqueue +
           length (filter (\<lambda>key. ''failed'' \<notin> set (scenario_statuses key resultsqueue) \<and>
                                  ''passed'' \<notin> set (scenario_statuses key resultsqueue))
                     (scenario_keys resultsqueue))"
proof -
  obtain combined t where d: "drain resultsqueue ([], tally_init) = (combined, t)"
    by (cases "drain resultsqueue ([], tally_init)")
  have dist: "distinct (map fst combined)"
    using drain_distinct[of "[]" resultsqueue tally_init] d by simp
  have keys: "set (map fst combined) = set (scenario_keys resultsqueue)"
    using drain_keys[of resultsqueue tally_init] d by simp
  have dk: "distinct (scenario_keys resultsqueue)" by (simp add: scenario_keys_def)
  have t: "features_failed t = feature_results ''failed'' resultsqueue"
    "features_passed t = feature_results ''passed'' resultsqueue"
    "features_skipped t = feature_results ''skipped'' resultsqueue"
    using drain_features[of resultsqueue "[]" tally_init] d by (simp_all add: tally_init_def)
  have entry: "str_in ''failed'' s = (''failed'' \<in> set (scenario_statuses key resultsqueue)) \<and>
               str_in ''passed'' s = (''passed'' \<in> set (scenario_statuses key resultsqueue))"
    if "(key, s) \<in> set combined" for key s
  proof -
    let ?ss = "scenario_statuses key resultsqueue"
    have j: "s = join_bar ?ss" using drain_entry[of key s resultsqueue tally_init] that d by simp
    have st: "\<forall>x\<in>set ?ss. plain_status x"
      using assms by (auto simp: scenario_statuses_def)
    have f: "str_in ''failed'' s = (''failed'' \<in> set ?ss)"
      unfolding j using st by (subst str_in_join_bar) (auto simp: str_in_plain_status)
    have p: "str_in ''passed'' s = (''passed'' \<in> set ?ss)"
      unfolding j using st by (subst str_in_join_bar) (auto simp: str_in_plain_status)
    show ?thesis using f p by simp
  qed
  have a: "aggregate resultsqueue = resolve_all combined t"
    by (simp add: aggregate_def d)
  have cf: "length (filter (\<lambda>p. str_in ''failed'' (snd p)) combined) =
            length (filter (\<lambda>key. ''failed'' \<in> set (scenario_statuses key resultsqueue))
                      (scenario_keys resultsqueue))"
    using dist dk keys by (rule count_by_keys) (simp add: entry)
  have cp: "length (filter (\<lambda>p. \<not> str_in ''failed'' (snd p) \<and> str_in ''passed'' (snd p)) combined) =
            length (filter (\<lambda>key. ''failed'' \<notin> set (scenario_statuses key resultsqueue) \<and>
                                   ''passed'' \<in> set (scenario_statuses key resultsqueue))
                      (scenario_keys resultsqueue))"
    using dist dk keys by (rule count_by_keys) (simp add: entry)
  have cs: "length (filter (\<lambda>p. \<not> str_in ''failed'' (snd p) \<and> \<not> str_in ''passed'' (snd p))
                      combined) =
            length (filter (\<lambda>key. ''failed'' \<notin> set (scenario_statuses key resultsqueue) \<and>
                                   ''passed'' \<notin> set (scenario_statuses key resultsqueue))
                      (scenario_keys resultsqueue))"
    using dist dk keys by (rule count_by_keys) (simp add: entry)
  have k: "set (map fst (fst (drain resultsqueue ([], tally_init)))) =
             set (scenario_keys resultsqueue)"
    using keys d by simp
  have 1: "features_failed (aggregate resultsqueue) =
           feature_results ''failed'' resultsqueue +
           length (filter (\<lambda>key. ''failed'' \<in> set (scenario_statuses key resultsqueue))
                     (scenario_keys resultsqueue))"
    unfolding a using resolve_all_counts[of combined t] t cf by simp
  have 2: "features_passed (aggregate resultsqueue) =
           feature_results ''passed'' resultsqueue +
           length (filter (\<lambda>key. ''failed'' \<notin> set (scenario_statuses key resultsqueue) \<and>
                                  ''passed'' \<in> set (scenario_statuses key resultsqueue))
                     (scenario_keys resultsqueue))"
    unfolding a using resolve_all_counts[of combined t] t cp by simp
  have 3: "features_skipped (aggregate resultsqueue) =
           feature_results ''skipped'' resultsqueue +
           length (filter (\<lambda>key. ''failed'' \<notin> set (scenario_statuses key resultsqueue) \<and>
                                  ''passed'' \<notin> set (scenario_statuses key resultsqueue))
                     (scenario_keys resultsqueue))"
    unfolding a using resolve_all_counts[of combined t] t cs by simp
  have m: "\<forall>key\<in>set (scenario_keys resultsqueue).
            map_of (fst (drain resultsqueue ([], tally_init))) key =
              Some (join_bar (scenario_statuses key resultsqueue))"
    by (simp add: drain_map_of accumulate_None scenario_statuses_keys)
  show ?thesis using k m 1 2 3 by blast
qed

theorem feature_status_priority_witness:
  "result_status (example_result ''fA'' ''passed'') \<in> job_statuses \<and>
   result_status (example_result ''fA'' ''failed'') \<in> job_statuses \<and>
   result_status (example_result ''fB'' ''skipped'') \<in> job_statuses \<and>
   scenario_statuses ''fA''
     [example_result ''fA'' ''passed'', example_result ''fB'' ''passed'',
      example_result ''fA'' ''failed'', example_result ''fC'' ''skipped'',
      example_result ''fB'' ''skipped'', example_result ''fA'' ''passed'',
      example_result ''fC'' ''skipped''] = [''passed'', ''failed'', ''passed''] \<and>
   scenario_statuses ''fB''
     [example_result ''fA'' ''passed'', example_result ''fB'' ''passed'',
      example_result ''fA'' ''failed'', example_result ''fC'' ''skipped'',
      example_result ''fB'' ''skipped'', example_result ''fA'' ''passed'',
      example_result ''fC'' ''skipped''] = [''passed'', ''skipped''] \<and>
   scenario_statuses ''fC''
     [example_result ''fA'' ''passed'', example_result ''fB'' ''passed'',
      example_result ''fA'' ''failed'', example_result ''fC'' ''skipped'',
      example_result ''fB'' ''skipped'', example_result ''fA'' ''passed'',
      example_result ''fC'' ''skipped''] = [''skipped'', ''skipped''] \<and>
   features_failed (aggregate
     [example_result ''fA'' ''passed'', example_result ''fB'' ''passed'',
      example_result ''fA'' ''failed'', example_result ''fC'' ''skipped'',
      example_result ''fB'' ''skipped'', example_result ''fA'' ''passed'',
      example_result ''fC'' ''skipped'']) = 1 \<and>
   features_passed (aggregate
     [example_result ''fA'' ''passed'', example_result ''fB'' ''passed'',
      example_result ''fA'' ''failed'', example_result ''fC'' ''skipped'',
      example_result ''fB'' ''skipped'', example_result ''fA'' ''passed'',
      example_result ''fC'' ''skipped'']) = 1 \<and>
   features_skipped (aggregate
     [example_result ''fA'' ''passed'', example_result ''fB'' ''passed'',
      example_result ''fA'' ''failed'', example_result ''fC'' ''skipped'',
      example_result ''fB'' ''skipped'', example_result ''fA'' ''passed'',
      example_result ''fC'' ''skipped'']) = 1"
proof -
  let ?rs = "[example_result ''fA'' ''passed'', example_result ''fB'' ''passed'',
              example_result ''fA'' ''failed'', example_result ''fC'' ''skipped'',
              example_result ''fB'' ''skipped'', example_result ''fA'' ''passed'',
              example_result ''fC'' ''skipped'']"
  have j: "result_status (example_result ''fA'' ''passed'') \<in> job_statuses"
    "result_status (example_result ''fA'' ''failed'') \<in> job_statuses"
    "result_status (example_result ''fB'' ''skipped'') \<in> job_statuses"
    by (simp_all add: example_result_def job_statuses_def)
  have a1: "\<forall>r\<in>set ?rs. jobtype r \<noteq> ''feature'' \<longrightarrow> plain_status (result_status r)"
    using j by (auto simp: example_result_def intro: job_statuses_plain)
  have k: "scenario_keys ?rs = [''fB'', ''fA'', ''fC'']"
    by (simp add: scenario_keys_def example_result_def)
  have sA: "scenario_statuses ''fA'' ?rs = [''passed'', ''failed'', ''passed'']"
    by (simp add: scenario_statuses_def example_result_def)
  have sB: "scenario_statuses ''fB'' ?rs = [''passed'', ''skipped'']"
    by (simp add: scenario_statuses_def example_result_def)
  have sC: "scenario_statuses ''fC'' ?rs = [''skipped'', ''skipped'']"
    by (simp add: scenario_statuses_def example_result_def)
  have f: "feature_results ''failed'' ?rs = 0" "feature_results ''passed'' ?rs = 0"
    "feature_results ''skipped'' ?rs = 0"
    by (simp_all add: feature_results_def example_result_def)
  note t = feature_status_priority [OF a1, THEN conjunct2, THEN conjunct2]
  have 1: "features_failed (aggregate ?rs) = 1"
    using t [THEN conjunct1] unfolding k f by (simp add: sA sB sC)
  have 2: "features_passed (aggregate ?rs) = 1"
    using t [THEN conjunct2, THEN conjunct1] unfolding k f by (simp add: sA sB sC)
  have 3: "features_skipped (aggregate ?rs) = 1"
    using t [THEN conjunct2, THEN conjunct2] unfolding k f by (simp add: sA sB sC)
  show ?thesis using j sA sB sC 1 2 3 by blast
qed

end
